theory Spec2Isabelle
  imports Complex_Main "HOL-Library.Signed_Division" "HOL-Library.Log_Nat"
begin

section \<open>JavaScript values used by the stereogram renderer\<close>

text \<open>
  This theory follows \<^verbatim>\<open>Stereogram.Renderer\<close> of \<^verbatim>\<open>js/stereogram.js\<close>, the renderer
  on plain WebGL.  The renderer on Three.js (\<^verbatim>\<open>stereo_three.js\<close>) has the same
  setters, the same \<^verbatim>\<open>_calc_strip_size\<close> and the same sequence of draws and
  copies in \<^verbatim>\<open>render\<close>.

  The renderer keeps its configuration in plain object fields.  A field that was
  never assigned reads as \<^verbatim>\<open>undefined\<close>, which behaves like \<^verbatim>\<open>NaN\<close> in every
  arithmetic expression and every comparison of the renderer and is falsy like
  \<^verbatim>\<open>NaN\<close>.

  Every number of JavaScript is an IEEE double.

  \<^item> \<open>jsint\<close> is a pixel or strip count, a double whose value is an integer:
    \<open>Some n\<close> is the integer \<open>n\<close>, \<open>None\<close> is \<^verbatim>\<open>undefined\<close> or \<^verbatim>\<open>NaN\<close>.
  \<^item> \<open>jsnum\<close> is a fractional quantity (a strip size in texture units, a scroll
    offset, a shader uniform).  \<open>Some q\<close> records the number \<open>q\<close> and stands for
    the double nearest to \<open>q\<close>: the code that reads the field gets that double.
    \<open>None\<close> is anything that is not a finite number (\<^verbatim>\<open>undefined\<close>, \<^verbatim>\<open>NaN\<close>,
    an infinity).

  The section on IEEE arithmetic defines the rounding.  Sums, products and
  quotients of \<^verbatim>\<open>render\<close> and the increment of \<^verbatim>\<open>_calc_strip_size\<close> are
  rounded as a double is; attribute arrays and uniforms are rounded once more, to
  single precision, when they are handed to WebGL.
\<close>

type_synonym jsint = "int option"
type_synonym jsnum = "real option"

text \<open>\<^verbatim>\<open>v || 1\<close>: the falsy numbers are \<^verbatim>\<open>undefined\<close>, \<^verbatim>\<open>NaN\<close> and \<^verbatim>\<open>0\<close>;
  a negative number is truthy and is kept.\<close>

definition or_one :: "jsint \<Rightarrow> int" where
  "or_one v = (case v of None \<Rightarrow> 1 | Some n \<Rightarrow> if n = 0 then 1 else n)"

text \<open>\<^verbatim>\<open>a % b\<close> on integers: the remainder of the truncating division, with the
  sign of \<open>a\<close>; \<^verbatim>\<open>NaN\<close> when \<open>b\<close> is zero.\<close>

definition js_rem :: "int \<Rightarrow> int \<Rightarrow> jsint" where
  "js_rem a b = (if b = 0 then None else Some (a smod b))"

text \<open>\<^verbatim>\<open>a < b\<close>: false as soon as one side is \<^verbatim>\<open>NaN\<close>.\<close>

definition js_less :: "jsint \<Rightarrow> jsint \<Rightarrow> bool" where
  "js_less a b = (case (a, b) of (Some x, Some y) \<Rightarrow> x < y | _ \<Rightarrow> False)"

text \<open>\<^verbatim>\<open>Math.ceil(a / b)\<close> for integers \<open>a\<close> and \<open>b \<noteq> 0\<close>.  The quotient is
  taken exactly; for \<open>a\<close> and \<open>b\<close> up to \<open>2 ^ 53\<close> in absolute value the rounded
  quotient of two doubles has the same ceiling (lemma \<open>ceil_div_double\<close>).\<close>

definition ceil_div :: "int \<Rightarrow> int \<Rightarrow> int" where
  "ceil_div a b = \<lceil>(of_int a :: real) / of_int b\<rceil>"

section \<open>IEEE arithmetic\<close>

text \<open>
  A double has \<open>53\<close> significant bits and a binary exponent from \<open>- 1022\<close> to
  \<open>1023\<close>; a single (an entry of a \<^verbatim>\<open>Float32Array\<close>, an argument of
  \<^verbatim>\<open>gl.uniform1f\<close>) has \<open>24\<close> bits and exponents from \<open>- 126\<close> to \<open>127\<close>.  The
  result of an operation is the exact result rounded to the nearest number of the
  format, a tie going to the number whose last bit is even.

  \<^item> \<open>pow2 e\<close> is \<open>2 ^ e\<close> for an integer \<open>e\<close> of either sign.
  \<^item> \<open>round_even x\<close> is the integer nearest to \<open>x\<close>, the even one at a tie.
  \<^item> \<open>expo x\<close> is the binary exponent of \<open>x > 0\<close>:
    \<open>pow2 (expo x) \<le> x < pow2 (expo x + 1)\<close>.
  \<^item> \<open>rnd p emin x\<close> rounds \<open>x\<close> to \<open>p\<close> significant bits, to the spacing of the
    exponent \<open>emin\<close> below \<open>pow2 emin\<close> (the subnormal numbers).
  \<^item> \<open>representable p emin y\<close>: \<open>y\<close> is a number of that format, overflow apart.
  \<^item> \<open>dbl x\<close> and \<open>f32 x\<close> are \<open>x\<close> rounded to a double and to a single,
    \<open>None\<close> when the result is an infinity.
\<close>

definition pow2 :: "int \<Rightarrow> real" where
  "pow2 e = (if 0 \<le> e then 2 ^ nat e else 1 / 2 ^ nat (- e))"

definition round_even :: "real \<Rightarrow> int" where
  "round_even x =
     (let f = \<lfloor>x\<rfloor>; d = x - real_of_int f
      in if d < 1 / 2 then f else if 1 / 2 < d then f + 1 else if even f then f else f + 1)"

definition expo :: "real \<Rightarrow> int" where
  "expo x = (if 1 \<le> x then bitlen \<lfloor>x\<rfloor> - 1 else - bitlen (\<lceil>1 / x\<rceil> - 1))"

definition rnd :: "int \<Rightarrow> int \<Rightarrow> real \<Rightarrow> real" where
  "rnd p emin x =
     (if x = 0 then 0
      else (let u = pow2 (max (expo \<bar>x\<bar>) emin - (p - 1))
            in real_of_int (round_even (x / u)) * u))"

definition representable :: "int \<Rightarrow> int \<Rightarrow> real \<Rightarrow> bool" where
  "representable p emin y \<longleftrightarrow>
     (\<exists>k j. y = real_of_int k * pow2 j \<and> \<bar>k\<bar> \<le> 2 ^ nat p \<and> emin - (p - 1) \<le> j)"

definition round_double :: "real \<Rightarrow> real" where
  "round_double x = rnd 53 (- 1022) x"

definition round_single :: "real \<Rightarrow> real" where
  "round_single x = rnd 24 (- 126) x"

definition dbl :: "real \<Rightarrow> real option" where
  "dbl x = (if pow2 1024 \<le> \<bar>round_double x\<bar> then None else Some (round_double x))"

definition f32 :: "real \<Rightarrow> real option" where
  "f32 x = (if pow2 128 \<le> \<bar>round_single x\<bar> then None else Some (round_single x))"

text \<open>\<^verbatim>\<open>v++\<close> on a variable that holds an integer: the double nearest to \<open>v + 1\<close>,
  which is \<open>v + 1\<close> below \<open>2 ^ 53\<close> and \<open>v\<close> itself at \<open>2 ^ 53\<close>.\<close>

definition js_incr :: "int \<Rightarrow> int" where
  "js_incr v = \<lfloor>round_double (real_of_int v + 1)\<rfloor>"

section \<open>Strip geometry\<close>

text \<open>
  The loop of \<^verbatim>\<open>_calc_strip_size\<close>:
  \<^verbatim>\<open>while (strip_size_pixels % num_sub_strips != 0) strip_size_pixels++;\<close>
  The result \<open>None\<close> means that the loop never exits.
\<close>

partial_function (option) calc_strip_size_loop :: "int \<Rightarrow> int \<Rightarrow> int option" where
  "calc_strip_size_loop num_sub_strips strip_size_pixels =
     (if js_rem strip_size_pixels num_sub_strips \<noteq> Some 0
      then calc_strip_size_loop num_sub_strips (js_incr strip_size_pixels)
      else Some strip_size_pixels)"

declare calc_strip_size_loop.simps [code]

text \<open>The local variable \<^verbatim>\<open>strip_size_pixels\<close> at the end of
  \<^verbatim>\<open>_calc_strip_size\<close>, from the three fields it reads.\<close>

definition calc_strip_size_pixels :: "jsint \<Rightarrow> jsint \<Rightarrow> jsint \<Rightarrow> int option" where
  "calc_strip_size_pixels rw ns nss =
     calc_strip_size_loop (or_one nss) (ceil_div (or_one rw) (or_one ns))"

section \<open>Renderer state and its WebGL environment\<close>

text \<open>A texture is a WebGL handle; \<open>None\<close> is \<^verbatim>\<open>undefined\<close> or \<^verbatim>\<open>null\<close>.\<close>

type_synonym texture = nat

text \<open>\<^verbatim>\<open>Stereogram.BG_NOISE\<close> and \<^verbatim>\<open>Stereogram.BG_TILE\<close>.\<close>

definition BG_NOISE :: int where "BG_NOISE = 0"
definition BG_TILE :: int where "BG_TILE = 1"

text \<open>The fields of a \<^verbatim>\<open>Stereogram.Renderer\<close> object that its methods read or write.\<close>

record renderer =
  render_width :: jsint
  render_height :: jsint
  stereo_texture :: "texture option"
  num_strips :: jsint
  num_sub_strips :: jsint
  strip_size :: jsnum
  depth_factor :: jsnum
  background_mode :: jsint
  noise_seed :: jsnum
  tile_texture :: "texture option"
  bg_scroll_x :: jsnum
  bg_scroll_y :: jsnum

text \<open>The object as \<^verbatim>\<open>new\<close> hands it to the constructor: every field undefined.\<close>

definition unset_renderer :: renderer where
  "unset_renderer =
     \<lparr>render_width = None, render_height = None, stereo_texture = None,
      num_strips = None, num_sub_strips = None, strip_size = None,
      depth_factor = None, background_mode = None, noise_seed = None,
      tile_texture = None, bg_scroll_x = None, bg_scroll_y = None\<rparr>"

text \<open>
  The three shader programs with the uniform values uploaded by
  \<^verbatim>\<open>enable_program_shader\<close> at the draw: the noise program with \<^verbatim>\<open>seed\<close>, the
  texture program with \<^verbatim>\<open>texture\<close>, the stereo program with \<^verbatim>\<open>strip_size\<close>,
  \<^verbatim>\<open>depth_strip_size\<close>, \<^verbatim>\<open>depth_factor\<close>, \<^verbatim>\<open>depth_texture\<close> and
  \<^verbatim>\<open>stereo_texture\<close>.  The two matrices are constants and are left out.
\<close>

datatype program =
    NoiseProgram jsnum
  | TextureProgram "texture option"
  | StereoProgram jsnum jsnum jsnum "texture option" "texture option"

text \<open>
  The WebGL calls that change what is on the framebuffer or in a texture:
  \<^item> \<open>Clear\<close>: \<^verbatim>\<open>gl.clear\<close> after \<^verbatim>\<open>gl.clearColor(0, 0, 0, 1)\<close>;
  \<^item> \<open>CreateTexture t w h\<close>: \<^verbatim>\<open>Util.create_texture(gl, w, h)\<close> returning \<open>t\<close>;
  \<^item> \<open>DeleteTexture t\<close>: \<^verbatim>\<open>gl.deleteTexture(t)\<close>;
  \<^item> \<open>DrawArrays p position uv\<close>: \<^verbatim>\<open>gl.drawArrays(gl.TRIANGLES, 0, n)\<close> with
    program \<open>p\<close> enabled and the attribute arrays \<open>position\<close> and \<open>uv\<close>;
  \<^item> \<open>CopyTexSubImage2D t x w h\<close>:
    \<^verbatim>\<open>gl.copyTexSubImage2D(gl.TEXTURE_2D, 0, x, 0, x, 0, w, h)\<close> with \<open>t\<close> bound.
\<close>

datatype gl_cmd =
    Clear
  | CreateTexture texture jsint jsint
  | DeleteTexture texture
  | DrawArrays program "jsnum list" "jsnum list"
  | CopyTexSubImage2D "texture option" jsint jsint jsint

text \<open>
  What surrounds the renderer: whether the page has a global variable \<^verbatim>\<open>gl\<close>
  (bound to the renderer's context, as in the usage example at the head of the
  file), whether the three shader programs compile and link, the next unused
  texture handle, the live textures with the size they were created with, and
  the WebGL calls issued so far, oldest first.
\<close>

record env =
  global_gl :: bool
  shaders_compile :: bool
  next_texture :: texture
  textures :: "texture \<rightharpoonup> jsint \<times> jsint"
  gl_log :: "gl_cmd list"

datatype js_error = ReferenceError | ShaderError

text \<open>A call returns, throws (leaving the state as it was at the throw), or
  never returns.\<close>

datatype 'a outcome = Returns 'a | Throws js_error 'a | Diverges

definition and_then :: "'a outcome \<Rightarrow> ('a \<Rightarrow> 'a outcome) \<Rightarrow> 'a outcome" where
  "and_then m f = (case m of Returns a \<Rightarrow> f a | Throws e a \<Rightarrow> Throws e a | Diverges \<Rightarrow> Diverges)"

section \<open>Arithmetic of the renderer\<close>

text \<open>
  The operations \<open>num_mul\<close>, \<open>num_div\<close>, \<open>num_ceil\<close> and \<open>int_sub\<close> are exact.
  They are used where the code computes with integers: the automatic strip
  count \<^verbatim>\<open>Math.ceil(8 * this.render_width / 1000)\<close>, whose rounded quotient has
  the same ceiling as the exact one for widths up to \<open>2 ^ 50\<close> (lemma
  \<open>ceil_div_double\<close>), and the difference \<^verbatim>\<open>this.render_width - x\<close> of two
  integers.
\<close>

definition num_mul :: "jsnum \<Rightarrow> jsnum \<Rightarrow> jsnum" where
  "num_mul a b = (case (a, b) of (Some x, Some y) \<Rightarrow> Some (x * y) | _ \<Rightarrow> None)"

text \<open>A division by zero gives an infinity or \<^verbatim>\<open>NaN\<close>.\<close>

definition num_div :: "jsnum \<Rightarrow> jsnum \<Rightarrow> jsnum" where
  "num_div a b =
     (case (a, b) of (Some x, Some y) \<Rightarrow> if y = 0 then None else Some (x / y) | _ \<Rightarrow> None)"

definition num_of :: "jsint \<Rightarrow> jsnum" where
  "num_of a = map_option real_of_int a"

definition num_floor :: "jsnum \<Rightarrow> jsint" where
  "num_floor a = map_option floor a"

definition num_ceil :: "jsnum \<Rightarrow> jsint" where
  "num_ceil a = map_option ceiling a"

definition int_sub :: "jsint \<Rightarrow> jsint \<Rightarrow> jsint" where
  "int_sub a b = (case (a, b) of (Some x, Some y) \<Rightarrow> Some (x - y) | _ \<Rightarrow> None)"

text \<open>
  The arithmetic of \<^verbatim>\<open>render\<close> is on doubles.  \<open>dbl_of a\<close> is the double that
  the field recorded as \<open>a\<close> holds; \<open>js_add\<close>, \<open>js_mul\<close> and \<open>js_div\<close> are
  \<^verbatim>\<open>+\<close>, \<^verbatim>\<open>*\<close> and \<^verbatim>\<open>/\<close> on two doubles; \<open>f32_of a\<close> is the single that
  WebGL receives for the double \<open>a\<close>.  A division by zero gives an infinity or
  \<^verbatim>\<open>NaN\<close>.
\<close>

definition dbl_of :: "jsnum \<Rightarrow> jsnum" where
  "dbl_of a = (case a of None \<Rightarrow> None | Some x \<Rightarrow> dbl x)"

definition f32_of :: "jsnum \<Rightarrow> jsnum" where
  "f32_of a = (case a of None \<Rightarrow> None | Some x \<Rightarrow> f32 x)"

definition js_add :: "jsnum \<Rightarrow> jsnum \<Rightarrow> jsnum" where
  "js_add a b = (case (a, b) of (Some x, Some y) \<Rightarrow> dbl (x + y) | _ \<Rightarrow> None)"

definition js_mul :: "jsnum \<Rightarrow> jsnum \<Rightarrow> jsnum" where
  "js_mul a b = (case (a, b) of (Some x, Some y) \<Rightarrow> dbl (x * y) | _ \<Rightarrow> None)"

definition js_div :: "jsnum \<Rightarrow> jsnum \<Rightarrow> jsnum" where
  "js_div a b =
     (case (a, b) of (Some x, Some y) \<Rightarrow> if y = 0 then None else dbl (x / y) | _ \<Rightarrow> None)"

section \<open>Configuration\<close>

text \<open>\<^verbatim>\<open>_calc_strip_size\<close>: the only field written is \<^verbatim>\<open>strip_size\<close>.\<close>

definition calc_strip_size :: "renderer \<Rightarrow> renderer outcome" where
  "calc_strip_size r =
     (case calc_strip_size_pixels (render_width r) (num_strips r) (num_sub_strips r) of
        None \<Rightarrow> Diverges
      | Some strip_size_pixels \<Rightarrow>
          Returns (r\<lparr>strip_size :=
            Some (real_of_int strip_size_pixels / real_of_int (or_one (render_width r)))\<rparr>))"

definition setNumStrips :: "jsint \<Rightarrow> renderer \<Rightarrow> renderer outcome" where
  "setNumStrips n r =
     (let n' = (if js_less n (Some 0)
                then num_ceil (num_div (num_mul (Some 8) (num_of (render_width r))) (Some 1000))
                else n)
      in calc_strip_size (r\<lparr>num_strips := n'\<rparr>))"

definition setNumSubStrips :: "jsint \<Rightarrow> renderer \<Rightarrow> renderer outcome" where
  "setNumSubStrips n r = calc_strip_size (r\<lparr>num_sub_strips := n\<rparr>)"

text \<open>
  The argument of \<^verbatim>\<open>setBackgroundMode\<close> can be any value; the ones modelled are
  \<^verbatim>\<open>undefined\<close>, \<^verbatim>\<open>null\<close>, the booleans, the integers and \<^verbatim>\<open>NaN\<close>.
  \<open>js_eq_int v n\<close> is the loose comparison \<^verbatim>\<open>v == n\<close> with a number \<open>n\<close>.
\<close>

datatype jsval = JUndefined | JNull | JBool bool | JNumber int | JNaN

definition js_eq_int :: "jsval \<Rightarrow> int \<Rightarrow> bool" where
  "js_eq_int v n =
     (case v of
        JUndefined \<Rightarrow> False
      | JNull \<Rightarrow> False
      | JBool b \<Rightarrow> (if b then 1 else 0) = n
      | JNumber k \<Rightarrow> k = n
      | JNaN \<Rightarrow> False)"

definition setBackgroundMode :: "jsval \<Rightarrow> renderer \<Rightarrow> renderer" where
  "setBackgroundMode mode r =
     r\<lparr>background_mode := (if js_eq_int mode BG_NOISE then Some BG_NOISE else Some BG_TILE)\<rparr>"

definition setBackgroundTileTexture :: "texture option \<Rightarrow> renderer \<Rightarrow> renderer" where
  "setBackgroundTileTexture t r = r\<lparr>tile_texture := t\<rparr>"

definition setBackgroundTileScroll :: "jsnum \<Rightarrow> jsnum \<Rightarrow> renderer \<Rightarrow> renderer" where
  "setBackgroundTileScroll x y r = r\<lparr>bg_scroll_x := x, bg_scroll_y := y\<rparr>"

definition setNoiseSeed :: "jsnum \<Rightarrow> renderer \<Rightarrow> renderer" where
  "setNoiseSeed seed r = r\<lparr>noise_seed := seed\<rparr>"

definition setDepthFactor :: "jsnum \<Rightarrow> renderer \<Rightarrow> renderer" where
  "setDepthFactor f r = r\<lparr>depth_factor := f\<rparr>"

text \<open>\<^verbatim>\<open>Util.create_texture\<close>: a fresh handle, recorded with its size.\<close>

definition create_texture :: "jsint \<Rightarrow> jsint \<Rightarrow> env \<Rightarrow> texture \<times> env" where
  "create_texture width height e =
     (let t = next_texture e
      in (t, e\<lparr>next_texture := Suc t,
                textures := (textures e)(t \<mapsto> (width, height)),
                gl_log := gl_log e @ [CreateTexture t width height]\<rparr>))"

definition deleteTexture :: "texture \<Rightarrow> env \<Rightarrow> env" where
  "deleteTexture t e =
     e\<lparr>textures := (textures e)(t := None), gl_log := gl_log e @ [DeleteTexture t]\<rparr>"

text \<open>
  \<^verbatim>\<open>resize\<close>.  The old texture is deleted through the identifier \<^verbatim>\<open>gl\<close>, which is
  not a variable of the method: it is looked up among the globals, and the lookup
  throws when the page has none.  The two sizes are already written then.
\<close>

definition resize :: "jsint \<Rightarrow> jsint \<Rightarrow> renderer \<times> env \<Rightarrow> (renderer \<times> env) outcome" where
  "resize width height w =
     (let r = (fst w)\<lparr>render_width := width, render_height := height\<rparr>; e = snd w
      in case stereo_texture r of
           Some old \<Rightarrow>
             if global_gl e
             then (let (t, e') = create_texture width height (deleteTexture old e)
                   in Returns (r\<lparr>stereo_texture := Some t\<rparr>, e'))
             else Throws ReferenceError (r, e)
         | None \<Rightarrow>
             (let (t, e') = create_texture width height e
              in Returns (r\<lparr>stereo_texture := Some t\<rparr>, e')))"


section \<open>Rendering\<close>

text \<open>\<^verbatim>\<open>Stereogram.quad_vtx\<close> and \<^verbatim>\<open>Stereogram.quad_uv\<close>: the unit square as two
  triangles.\<close>

definition quad_vtx :: "real list" where
  "quad_vtx = [0,0,0, 1,0,0, 1,1,0, 1,1,0, 0,1,0, 0,0,0]"

definition quad_uv :: "real list" where
  "quad_uv = [0,0, 1,0, 1,1, 1,1, 0,1, 0,0]"

text \<open>
  The rendering methods read the fields of the renderer and call WebGL; they
  read nothing back from WebGL that changes what they do next.  Each is modelled
  by the list of the calls it makes, in order.
\<close>

text \<open>\<^verbatim>\<open>_copy_strip_to_stereo_texture(x, width)\<close>.\<close>

definition copy_strip_to_stereo_texture :: "jsint \<Rightarrow> jsint \<Rightarrow> renderer \<Rightarrow> gl_cmd list" where
  "copy_strip_to_stereo_texture x width r =
     (let width' = (if js_less (int_sub (render_width r) x) width
                    then int_sub (render_width r) x else width)
      in [CopyTexSubImage2D (stereo_texture r) x width' (render_height r)])"

text \<open>
  The attribute arrays that \<^verbatim>\<open>_render_reference_strip(strip_size)\<close> fills, one
  vertex per round of its loops: \<^verbatim>\<open>position\<close> from \<^verbatim>\<open>quad_vtx\<close> with the x
  coordinate multiplied by \<^verbatim>\<open>strip_size\<close>, \<^verbatim>\<open>uv\<close> from \<^verbatim>\<open>quad_uv\<close> with the
  scroll offsets added and the second coordinate divided by \<^verbatim>\<open>strip_size\<close>.  The
  argument \<^verbatim>\<open>strip_size\<close> is called \<open>ssize\<close> here.  The arrays are given as
  WebGL receives them: \<^verbatim>\<open>enable_program_shader\<close> uploads a \<^verbatim>\<open>Float32Array\<close>,
  made from the values on the first draw and written to directly afterwards, so
  every entry is rounded to single precision.
\<close>

definition reference_position :: "jsnum \<Rightarrow> jsnum list" where
  "reference_position ssize =
     concat (map (\<lambda>i.
       [f32_of (js_mul (Some (quad_vtx ! (3*i))) ssize),
        f32_of (Some (quad_vtx ! (3*i + 1))),
        f32_of (Some (quad_vtx ! (3*i + 2)))]) [0 ..< length quad_vtx div 3])"

definition reference_uv :: "jsnum \<Rightarrow> jsnum \<Rightarrow> jsnum \<Rightarrow> jsnum list" where
  "reference_uv scroll_x scroll_y ssize =
     concat (map (\<lambda>i.
       [f32_of (js_add scroll_x (Some (quad_uv ! (2*i)))),
        f32_of (js_add scroll_y (js_div (Some (quad_uv ! (2*i + 1))) ssize))])
       [0 ..< length quad_uv div 2])"

text \<open>\<^verbatim>\<open>_render_reference_strip(strip_size)\<close>: choose the background program, draw
  the quad, copy it to the stereogram texture.  The uniform \<^verbatim>\<open>seed\<close> goes through
  \<^verbatim>\<open>gl.uniform1f\<close>, which rounds it to single precision.  The width of the copy
  is \<^verbatim>\<open>Math.floor(strip_size*this.render_width) + this.num_sub_strips\<close>.\<close>

definition render_reference_strip :: "jsnum \<Rightarrow> renderer \<Rightarrow> gl_cmd list" where
  "render_reference_strip ssize r =
     (let (scroll_x, scroll_y, use_shader) =
            (if background_mode r = Some BG_NOISE
             then (Some 0, Some 0, NoiseProgram (f32_of (dbl_of (noise_seed r))))
             else (dbl_of (bg_scroll_x r), dbl_of (bg_scroll_y r),
                   TextureProgram (tile_texture r)))
      in DrawArrays use_shader (reference_position ssize) (reference_uv scroll_x scroll_y ssize)
         # copy_strip_to_stereo_texture (Some 0)
             (num_floor (js_add (num_of (num_floor (js_mul ssize (num_of (render_width r)))))
                                (num_of (num_sub_strips r))))
             r)"

text \<open>The attribute arrays that \<^verbatim>\<open>_render_stereo_strip(num, strip_size)\<close> fills:
  the unit square moved right by \<open>num\<close> and scaled by \<^verbatim>\<open>strip_size\<close> in x, for
  the position and for the texture coordinate alike.\<close>

definition stereo_position :: "int \<Rightarrow> jsnum \<Rightarrow> jsnum list" where
  "stereo_position num ssize =
     concat (map (\<lambda>i.
       [f32_of (js_mul (js_add (Some (quad_vtx ! (3*i))) (Some (real_of_int num))) ssize),
        f32_of (Some (quad_vtx ! (3*i + 1))),
        f32_of (Some (quad_vtx ! (3*i + 2)))]) [0 ..< length quad_vtx div 3])"

definition stereo_uv :: "int \<Rightarrow> jsnum \<Rightarrow> jsnum list" where
  "stereo_uv num ssize =
     concat (map (\<lambda>i.
       [f32_of (js_mul (js_add (Some (quad_uv ! (2*i))) (Some (real_of_int num))) ssize),
        f32_of (Some (quad_uv ! (2*i + 1)))]) [0 ..< length quad_uv div 2])"

text \<open>\<^verbatim>\<open>_render_stereo_strip(num, strip_size)\<close>.  The stereo program is drawn
  with the uniform values that \<^verbatim>\<open>render\<close> stored in it; they come in as
  \<open>shader\<close>.  The copy starts at
  \<^verbatim>\<open>Math.floor(num*strip_size*this.render_width)\<close> and its width is
  \<^verbatim>\<open>Math.floor(strip_size*this.render_width) + this.num_sub_strips\<close>.\<close>

definition render_stereo_strip :: "program \<Rightarrow> int \<Rightarrow> jsnum \<Rightarrow> renderer \<Rightarrow> gl_cmd list" where
  "render_stereo_strip shader num ssize r =
     DrawArrays shader (stereo_position num ssize) (stereo_uv num ssize)
     # copy_strip_to_stereo_texture
         (num_floor (js_mul (js_mul (Some (real_of_int num)) ssize) (num_of (render_width r))))
         (num_floor (js_add (num_of (num_floor (js_mul ssize (num_of (render_width r)))))
                            (num_of (num_sub_strips r))))
         r"

text \<open>
  A loop \<^verbatim>\<open>for (v = a; v < bound; v++)\<close> that starts at \<open>a = 0\<close> or \<open>a = 1\<close>:
  the values of \<open>v\<close> in the rounds of the loop.  A bound that is not a number
  makes the first test false.  \<^verbatim>\<open>v++\<close> is exact below \<open>2 ^ 53\<close> and leaves
  \<open>2 ^ 53\<close> as it is, so the loop never exits when the bound is larger; this is
  the result \<open>None\<close>.
\<close>

definition loop_values :: "int \<Rightarrow> jsint \<Rightarrow> int list option" where
  "loop_values a bound =
     (case bound of
        None \<Rightarrow> Some []
      | Some n \<Rightarrow> if n \<le> 2 ^ 53 then Some [a .. n - 1] else None)"

text \<open>\<^verbatim>\<open>this.num_sub_strips * strip + sub\<close>, a product and a sum of doubles.\<close>

definition strip_index :: "int \<Rightarrow> int \<Rightarrow> int \<Rightarrow> int" where
  "strip_index m strip sub =
     \<lfloor>round_double (round_double (real_of_int m * real_of_int strip) + real_of_int sub)\<rfloor>"

text \<open>
  The two loops of \<^verbatim>\<open>render\<close>,
  \<^verbatim>\<open>for (strip = 1; strip < this.num_strips; strip++)\<close> around
  \<^verbatim>\<open>for (sub = 0; sub < this.num_sub_strips; sub++)\<close>, call
  \<^verbatim>\<open>_render_stereo_strip\<close> with the first argument
  \<^verbatim>\<open>this.num_sub_strips * strip + sub\<close>.  \<open>stereo_indices\<close> lists these arguments
  in the order of the calls, and is \<open>None\<close> when a loop never exits.
\<close>

definition stereo_indices :: "jsint \<Rightarrow> jsint \<Rightarrow> int list option" where
  "stereo_indices ns nss =
     (case loop_values 1 ns of
        None \<Rightarrow> None
      | Some strips \<Rightarrow>
          if strips = [] then Some []
          else (case nss of
                  None \<Rightarrow> Some []
                | Some m \<Rightarrow>
                    (case loop_values 0 (Some m) of
                       None \<Rightarrow> None
                     | Some subs \<Rightarrow>
                         Some (concat (map (\<lambda>strip. map (\<lambda>sub. strip_index m strip sub) subs)
                                 strips)))))"

text \<open>
  \<^verbatim>\<open>render(depth_map)\<close>: the calls it makes, \<open>None\<close> when it never returns.  The
  uniforms of the stereo program go through \<^verbatim>\<open>gl.uniform1f\<close>;
  \<^verbatim>\<open>depth_strip_size\<close> is \<^verbatim>\<open>1/(this.num_strips+1)\<close>.
\<close>

definition render :: "texture option \<Rightarrow> renderer \<Rightarrow> gl_cmd list option" where
  "render depth_map r =
     (let ssize = dbl_of (strip_size r);
          shader = StereoProgram (f32_of ssize)
                     (f32_of (js_div (Some 1) (js_add (num_of (num_strips r)) (Some 1))))
                     (f32_of (dbl_of (depth_factor r))) depth_map (stereo_texture r)
      in map_option (\<lambda>nums.
           Clear
           # render_reference_strip ssize r
           @ concat (map (\<lambda>num.
               render_stereo_strip shader num (js_div ssize (num_of (num_sub_strips r))) r)
               nums))
         (stereo_indices (num_strips r) (num_sub_strips r)))"

section \<open>Construction and use\<close>

type_synonym world = "renderer \<times> env"

definition on_renderer :: "(renderer \<Rightarrow> renderer outcome) \<Rightarrow> world \<Rightarrow> world outcome" where
  "on_renderer f w =
     (case f (fst w) of
        Returns r \<Rightarrow> Returns (r, snd w)
      | Throws err r \<Rightarrow> Throws err (r, snd w)
      | Diverges \<Rightarrow> Diverges)"

definition set_field :: "(renderer \<Rightarrow> renderer) \<Rightarrow> world \<Rightarrow> world outcome" where
  "set_field f w = Returns (f (fst w), snd w)"

text \<open>\<^verbatim>\<open>create_noise_shader\<close>, \<^verbatim>\<open>create_texture_shader\<close> and
  \<^verbatim>\<open>create_stereo_shader\<close>: \<^verbatim>\<open>Util.create_shader\<close> throws when a shader does not
  compile, \<^verbatim>\<open>Util.create_program_shader\<close> when the program does not link.\<close>

definition create_shaders :: "world \<Rightarrow> world outcome" where
  "create_shaders w = (if shaders_compile (snd w) then Returns w else Throws ShaderError w)"

text \<open>The constructor \<^verbatim>\<open>Stereogram.Renderer(gl, width, height)\<close>.\<close>

definition Renderer :: "jsint \<Rightarrow> jsint \<Rightarrow> env \<Rightarrow> world outcome" where
  "Renderer width height e =
     and_then (resize width height (unset_renderer, e)) (\<lambda>w.
     and_then (on_renderer (setNumStrips (Some (- 1))) w) (\<lambda>w.
     and_then (on_renderer (setNumSubStrips (Some 2)) w) (\<lambda>w.
     and_then (set_field (setDepthFactor (Some (1 / 75))) w) (\<lambda>w.
     and_then (set_field (setBackgroundMode (JNumber BG_NOISE)) w) (\<lambda>w.
     and_then (set_field (setNoiseSeed (Some 0)) w) (\<lambda>w.
     and_then (set_field (setBackgroundTileTexture None) w) (\<lambda>w.
     and_then (set_field (setBackgroundTileScroll (Some 0) (Some 0)) w) (\<lambda>w.
     and_then (set_field (\<lambda>r. r\<lparr>background_mode := Some BG_NOISE\<rparr>) w)
       create_shaders))))))))"

text \<open>The public methods, as a caller can invoke them on a constructed renderer.\<close>

datatype operation =
    Resize jsint jsint
  | SetNumStrips jsint
  | SetNumSubStrips jsint
  | SetDepthFactor jsnum
  | SetBackgroundMode jsval
  | SetBackgroundTileTexture "texture option"
  | SetBackgroundTileScroll jsnum jsnum
  | SetNoiseSeed jsnum
  | Render "texture option"

fun apply_operation :: "operation \<Rightarrow> world \<Rightarrow> world outcome" where
  "apply_operation (Resize width height) w = resize width height w"
| "apply_operation (SetNumStrips n) w = on_renderer (setNumStrips n) w"
| "apply_operation (SetNumSubStrips n) w = on_renderer (setNumSubStrips n) w"
| "apply_operation (SetDepthFactor f) w = set_field (setDepthFactor f) w"
| "apply_operation (SetBackgroundMode mode) w = set_field (setBackgroundMode mode) w"
| "apply_operation (SetBackgroundTileTexture t) w = set_field (setBackgroundTileTexture t) w"
| "apply_operation (SetBackgroundTileScroll x y) w = set_field (setBackgroundTileScroll x y) w"
| "apply_operation (SetNoiseSeed seed) w = set_field (setNoiseSeed seed) w"
| "apply_operation (Render depth_map) w =
     (case render depth_map (fst w) of
        None \<Rightarrow> Diverges
      | Some calls \<Rightarrow> Returns (fst w, (snd w)\<lparr>gl_log := gl_log (snd w) @ calls\<rparr>))"

text \<open>A sequence of calls.  A caller that catches an exception goes on with the
  renderer as the failed call left it; \<open>None\<close> when a call never returns.\<close>

fun run :: "operation list \<Rightarrow> world \<Rightarrow> world option" where
  "run [] w = Some w"
| "run (op # ops) w =
     (case apply_operation op w of
        Returns w' \<Rightarrow> run ops w'
      | Throws err w' \<Rightarrow> run ops w'
      | Diverges \<Rightarrow> None)"

section \<open>The stereo fragment shader\<close>

text \<open>
  A sampler is what \<^verbatim>\<open>texture2D\<close> returns for a texture at a coordinate, filtering
  and wrapping included; a colour is its four components, red first.  The
  fragment program of \<^verbatim>\<open>create_stereo_shader\<close>, over exact numbers:
  \<^verbatim>\<open>
  highp vec2 depth_uv = vec2((frag_uv.x / depth_strip_size - 1.0) * strip_size, frag_uv.y);
  highp vec4 depth = texture2D(depth_texture, depth_uv);
  highp float delta = depth.r * depth_factor;
  highp vec2 uv = vec2(frag_uv.x + delta - strip_size, frag_uv.y);
  gl_FragColor = texture2D(stereo_texture, uv);
  \<close>
\<close>

type_synonym vec2 = "real \<times> real"
type_synonym vec4 = "real \<times> real \<times> real \<times> real"
type_synonym sampler = "vec2 \<Rightarrow> vec4"

definition stereo_fragment :: "sampler \<Rightarrow> sampler \<Rightarrow> real \<Rightarrow> real \<Rightarrow> real \<Rightarrow> vec2 \<Rightarrow> vec4" where
  "stereo_fragment depth_tex stereo_tex dfactor ssize depth_strip_size frag_uv =
     (let depth_uv = ((fst frag_uv / depth_strip_size - 1) * ssize, snd frag_uv);
          depth = depth_tex depth_uv;
          delta = fst depth * dfactor;
          uv = (fst frag_uv + delta - ssize, snd frag_uv)
      in stereo_tex uv)"

text \<open>The coordinate \<^verbatim>\<open>uv\<close> at which that program samples the stereogram
  texture.\<close>

definition stereo_read :: "sampler \<Rightarrow> real \<Rightarrow> real \<Rightarrow> real \<Rightarrow> vec2 \<Rightarrow> vec2" where
  "stereo_read depth_tex dfactor ssize depth_strip_size frag_uv =
     (let depth_uv = ((fst frag_uv / depth_strip_size - 1) * ssize, snd frag_uv);
          depth = depth_tex depth_uv;
          delta = fst depth * dfactor
      in (fst frag_uv + delta - ssize, snd frag_uv))"

text \<open>
  The fragment program of \<^verbatim>\<open>create_noise_shader\<close>:
  \<^verbatim>\<open>
  float rand(vec2 uv) {
      return fract(sin(dot(uv, vec2(12.9898,78.233))) * (43758.5453 + seed));
  }
  void main(void) {
    float val = rand(frag_uv);
    gl_FragColor = vec4(val, val, val, 1.0);
  }
  \<close>
\<close>

definition noise_fragment :: "real \<Rightarrow> vec2 \<Rightarrow> vec4" where
  "noise_fragment seed frag_uv =
     (let val = frac (sin (fst frag_uv * (129898 / 10000) + snd frag_uv * (78233 / 1000))
                      * (437585453 / 10000 + seed))
      in (val, val, val, 1))"

text \<open>
  The colour that a draw with a program gives the fragment with the interpolated
  texture coordinate \<open>frag_uv\<close>; \<open>tex\<close> gives the sampler of each texture.  The
  fragment program of \<^verbatim>\<open>create_texture_shader\<close> is
  \<^verbatim>\<open>gl_FragColor = texture2D(texture, frag_uv)\<close>.  \<open>None\<close> when a uniform is not
  a finite number.
\<close>

definition fragment_colour :: "(texture option \<Rightarrow> sampler) \<Rightarrow> program \<Rightarrow> vec2 \<Rightarrow> vec4 option" where
  "fragment_colour tex p frag_uv =
     (case p of
        NoiseProgram (Some seed) \<Rightarrow> Some (noise_fragment seed frag_uv)
      | NoiseProgram None \<Rightarrow> None
      | TextureProgram t \<Rightarrow> Some (tex t frag_uv)
      | StereoProgram (Some ssize) (Some depth_strip_size) (Some dfactor) depth_map stereo \<Rightarrow>
          Some (stereo_fragment (tex depth_map) (tex stereo) dfactor ssize depth_strip_size frag_uv)
      | _ \<Rightarrow> None)"

section \<open>Reading the WebGL calls\<close>

fun is_draw :: "gl_cmd \<Rightarrow> bool" where
  "is_draw (DrawArrays p position uv) = True"
| "is_draw c = False"

fun is_copy :: "gl_cmd \<Rightarrow> bool" where
  "is_copy (CopyTexSubImage2D t x w h) = True"
| "is_copy c = False"

fun is_stereo_draw :: "gl_cmd \<Rightarrow> bool" where
  "is_stereo_draw (DrawArrays (StereoProgram s d f dt st) position uv) = True"
| "is_stereo_draw c = False"

text \<open>A draw-and-copy step is a draw followed at once by a copy to the texture;
  \<open>draw_copy_steps\<close> splits a list of calls into such steps, and is \<open>None\<close> when
  the list is not made of them.\<close>

fun draw_copy_steps :: "gl_cmd list \<Rightarrow> (gl_cmd \<times> gl_cmd) list option" where
  "draw_copy_steps [] = Some []"
| "draw_copy_steps [c] = None"
| "draw_copy_steps (c # c' # cs) =
     (if is_draw c \<and> is_copy c'
      then map_option (\<lambda>steps. (c, c') # steps) (draw_copy_steps cs)
      else None)"

text \<open>
  WebGL converts a number argument to an integer, \<^verbatim>\<open>NaN\<close> and \<^verbatim>\<open>undefined\<close> to
  \<open>0\<close>.  \<^verbatim>\<open>copyTexSubImage2D(target, 0, x, 0, x, 0, w, h)\<close> overwrites the columns
  \<open>x, \<dots>, x + w - 1\<close> of the bound texture; when \<open>x\<close>, \<open>w\<close> or \<open>h\<close> is negative
  or the rectangle does not fit in the texture it records \<^verbatim>\<open>INVALID_VALUE\<close> and
  writes nothing.  It never throws.  \<open>copied_columns e c\<close> is the set of texture
  columns that the call \<open>c\<close> overwrites in the environment \<open>e\<close>.
\<close>

definition gl_int :: "jsint \<Rightarrow> int" where
  "gl_int v = (case v of None \<Rightarrow> 0 | Some n \<Rightarrow> n)"

definition copied_columns :: "env \<Rightarrow> gl_cmd \<Rightarrow> int set" where
  "copied_columns e c =
     (case c of
        CopyTexSubImage2D (Some t) x w h \<Rightarrow>
          (case textures e t of
             Some (tw, th) \<Rightarrow>
               if 0 \<le> gl_int x \<and> 0 \<le> gl_int w \<and> 0 < gl_int h
                  \<and> gl_int x + gl_int w \<le> gl_int tw \<and> gl_int h \<le> gl_int th
               then {gl_int x ..< gl_int x + gl_int w} else {}
           | None \<Rightarrow> {})
      | _ \<Rightarrow> {})"

section \<open>What WebGL does with the calls\<close>

text \<open>
  The pixels: the framebuffer of the canvas and the contents of the textures
  that the renderer created, both by column and row.  The depth map and the
  background tile are textures of the caller; the renderer only samples them.
\<close>

record gl_state =
  framebuffer :: "int \<times> int \<Rightarrow> vec4"
  texels :: "texture \<Rightarrow> int \<times> int \<Rightarrow> vec4"

text \<open>\<^verbatim>\<open>gl.clearColor(0.0, 0.0, 0.0, 1.0)\<close>; a texture created with no data is
  black as well, and a texture of format \<^verbatim>\<open>RGB\<close> has alpha \<open>1\<close>.\<close>

definition black :: vec4 where
  "black = (0, 0, 0, 1)"

definition opaque :: "vec4 \<Rightarrow> vec4" where
  "opaque c = (case c of (r, g, b, a) \<Rightarrow> (r, g, b, 1))"

definition mix :: "vec4 \<Rightarrow> vec4 \<Rightarrow> real \<Rightarrow> vec4" where
  "mix c c' a =
     (case (c, c') of ((r, g, b, al), (r', g', b', al')) \<Rightarrow>
        (r * (1 - a) + r' * a, g * (1 - a) + g' * a, b * (1 - a) + b' * a,
         al * (1 - a) + al' * a))"

text \<open>
  \<^verbatim>\<open>texture2D\<close> on a texture of \<open>w \<times> h\<close> texels created by \<^verbatim>\<open>Util.create_texture\<close>:
  the filters are \<^verbatim>\<open>LINEAR\<close> and the wrap modes \<^verbatim>\<open>CLAMP_TO_EDGE\<close>, so the
  coordinate is clamped to the centres of the outermost texels and the four texels
  around it are mixed.
\<close>

definition clamp_coord :: "int \<Rightarrow> real \<Rightarrow> real" where
  "clamp_coord n u = max (1 / (2 * real_of_int n)) (min (1 - 1 / (2 * real_of_int n)) u)"

definition texel_index :: "int \<Rightarrow> int \<Rightarrow> int" where
  "texel_index n i = max 0 (min (n - 1) i)"

definition sample_linear :: "int \<Rightarrow> int \<Rightarrow> (int \<times> int \<Rightarrow> vec4) \<Rightarrow> sampler" where
  "sample_linear w h c uv =
     (let x = clamp_coord w (fst uv) * real_of_int w - 1 / 2;
          y = clamp_coord h (snd uv) * real_of_int h - 1 / 2;
          i = \<lfloor>x\<rfloor>; j = \<lfloor>y\<rfloor>;
          a = x - real_of_int i; b = y - real_of_int j;
          i0 = texel_index w i; i1 = texel_index w (i + 1);
          j0 = texel_index h j; j1 = texel_index h (j + 1)
      in mix (mix (c (i0, j0)) (c (i1, j0)) a) (mix (c (i0, j1)) (c (i1, j1)) a) b)"

text \<open>The sampler of a texture: a texture of the renderer is sampled from its
  texels; any other is a texture of the caller, with the sampler \<open>ext\<close> gives it.\<close>

definition sampler_of ::
  "env \<Rightarrow> (texture option \<Rightarrow> sampler) \<Rightarrow> gl_state \<Rightarrow> texture option \<Rightarrow> sampler" where
  "sampler_of e ext st t =
     (case t of
        None \<Rightarrow> ext None
      | Some n \<Rightarrow>
          (case textures e n of
             Some (Some w, Some h) \<Rightarrow> sample_linear w h (texels st n)
           | _ \<Rightarrow> ext t))"

text \<open>
  The attribute arrays of a draw of the renderer describe a rectangle: two
  triangles over the corners \<open>(x0, 0)\<close>, \<open>(x1, 0)\<close>, \<open>(x1, 1)\<close>, \<open>(x0, 1)\<close>, with the
  texture coordinate going from \<open>(u0, v0)\<close> to \<open>(u1, v1)\<close>.  \<open>quad_of\<close> reads the six
  numbers off the arrays, and is \<open>None\<close> for arrays of any other shape or with an
  entry that is not a finite number.
\<close>

definition quad_of :: "jsnum list \<Rightarrow> jsnum list \<Rightarrow> (real \<times> real \<times> real \<times> real \<times> real \<times> real) option" where
  "quad_of position uv =
     (if length position = 18 \<and> length uv = 12
      then (case (position ! 0, position ! 3, uv ! 0, uv ! 2, uv ! 1, uv ! 5) of
              (Some x0, Some x1, Some u0, Some u1, Some v0, Some v1) \<Rightarrow>
                if position = map Some [x0,0,0, x1,0,0, x1,1,0, x1,1,0, x0,1,0, x0,0,0]
                   \<and> uv = map Some [u0,v0, u1,v0, u1,v1, u1,v1, u0,v1, u0,v0]
                then Some (x0, x1, u0, u1, v0, v1) else None
            | _ \<Rightarrow> None)
      else None)"

text \<open>
  The centre of a pixel of a canvas, in the unit square; whether a draw of the
  rectangle from \<open>x0\<close> to \<open>x1\<close> paints a pixel (its centre lies in the rectangle,
  the left edge included, the right edge not); the texture coordinate
  interpolated at a point \<open>c\<close> of the rectangle.
\<close>

definition pixel_centre :: "int \<times> int \<Rightarrow> int \<times> int \<Rightarrow> vec2" where
  "pixel_centre canvas px =
     ((real_of_int (fst px) + 1 / 2) / real_of_int (fst canvas),
      (real_of_int (snd px) + 1 / 2) / real_of_int (snd canvas))"

definition covered :: "int \<times> int \<Rightarrow> real \<Rightarrow> real \<Rightarrow> int \<times> int \<Rightarrow> bool" where
  "covered canvas x0 x1 px \<longleftrightarrow>
     0 \<le> fst px \<and> fst px < fst canvas \<and> 0 \<le> snd px \<and> snd px < snd canvas
     \<and> min x0 x1 \<le> fst (pixel_centre canvas px) \<and> fst (pixel_centre canvas px) < max x0 x1"

definition varying :: "real \<Rightarrow> real \<Rightarrow> real \<Rightarrow> real \<Rightarrow> real \<Rightarrow> real \<Rightarrow> vec2 \<Rightarrow> vec2" where
  "varying x0 x1 u0 u1 v0 v1 c =
     (u0 + (fst c - x0) / (x1 - x0) * (u1 - u0), v0 + snd c * (v1 - v0))"

text \<open>The texels that a copy overwrites, by column and row.\<close>

definition copies :: "env \<Rightarrow> gl_cmd \<Rightarrow> int \<times> int \<Rightarrow> bool" where
  "copies e c px =
     (case c of
        CopyTexSubImage2D t x w h \<Rightarrow>
          fst px \<in> copied_columns e c \<and> 0 \<le> snd px \<and> snd px < gl_int h
      | _ \<Rightarrow> False)"

text \<open>
  One call on a canvas of \<open>cw \<times> ch\<close> pixels.  The projection matrix of the
  renderer maps the unit square onto the whole canvas.
  \<^item> The clear paints every pixel black.
  \<^item> The draw paints the pixels whose centre lies in the rectangle (its left
    edge included, its right edge not), each with the colour of its fragment,
    for which the texture coordinate is interpolated between the corners.
  \<^item> The copy writes the columns given by \<open>copied_columns\<close>, rows \<open>0\<close> to \<open>h - 1\<close>, of
    the texture with the pixels of the framebuffer at the same place.
  \<^item> Creating a texture makes its texels black; deleting one changes no pixel.
  The result is \<open>None\<close> for a draw that the model does not cover: arrays that
  are not such a rectangle, or a uniform that is not a finite number.
\<close>

definition gl_step ::
  "int \<times> int \<Rightarrow> env \<Rightarrow> (texture option \<Rightarrow> sampler) \<Rightarrow> gl_cmd \<Rightarrow> gl_state \<Rightarrow> gl_state option" where
  "gl_step canvas e ext c st =
     (case c of
        Clear \<Rightarrow> Some (st\<lparr>framebuffer := (\<lambda>px. black)\<rparr>)
      | CreateTexture t w h \<Rightarrow> Some (st\<lparr>texels := (texels st)(t := (\<lambda>px. black))\<rparr>)
      | DeleteTexture t \<Rightarrow> Some st
      | DrawArrays p position uv \<Rightarrow>
          (case quad_of position uv of
             None \<Rightarrow> None
           | Some (x0, x1, u0, u1, v0, v1) \<Rightarrow>
               if fragment_colour (sampler_of e ext st) p (0, 0) = None then None
               else Some (st\<lparr>framebuffer := (\<lambda>px.
                 if covered canvas x0 x1 px
                 then (case fragment_colour (sampler_of e ext st) p
                              (varying x0 x1 u0 u1 v0 v1 (pixel_centre canvas px)) of
                         Some colour \<Rightarrow> colour
                       | None \<Rightarrow> framebuffer st px)
                 else framebuffer st px)\<rparr>))
      | CopyTexSubImage2D t x w h \<Rightarrow>
          (case t of
             None \<Rightarrow> Some st
           | Some n \<Rightarrow>
               Some (st\<lparr>texels := (texels st)(n := (\<lambda>px.
                 if copies e c px then opaque (framebuffer st px) else texels st n px))\<rparr>)))"

fun gl_exec ::
  "int \<times> int \<Rightarrow> env \<Rightarrow> (texture option \<Rightarrow> sampler) \<Rightarrow> gl_cmd list \<Rightarrow> gl_state \<Rightarrow> gl_state option" where
  "gl_exec canvas e ext [] st = Some st"
| "gl_exec canvas e ext (c # cs) st =
     (case gl_step canvas e ext c st of
        None \<Rightarrow> None
      | Some st' \<Rightarrow> gl_exec canvas e ext cs st')"

text \<open>What a call of \<^verbatim>\<open>render\<close> does to the pixels: WebGL carries out its calls.\<close>

definition render_pixels ::
  "int \<times> int \<Rightarrow> env \<Rightarrow> (texture option \<Rightarrow> sampler) \<Rightarrow> texture option \<Rightarrow> renderer
     \<Rightarrow> gl_state \<Rightarrow> gl_state option" where
  "render_pixels canvas e ext depth_map r st =
     (case render depth_map r of
        None \<Rightarrow> None
      | Some calls \<Rightarrow> gl_exec canvas e ext calls st)"

definition texel_after :: "gl_state option \<Rightarrow> texture \<Rightarrow> int \<times> int \<Rightarrow> vec4 option" where
  "texel_after st t px = map_option (\<lambda>s. texels s t px) st"

section \<open>Pixels drawn, texels read and texels committed\<close>

text \<open>The pixels that a draw paints.\<close>

definition draws :: "int \<times> int \<Rightarrow> gl_cmd \<Rightarrow> int \<times> int \<Rightarrow> bool" where
  "draws canvas c px =
     (case c of
        DrawArrays p position uv \<Rightarrow>
          (case quad_of position uv of
             Some (x0, x1, u0, u1, v0, v1) \<Rightarrow> covered canvas x0 x1 px
           | None \<Rightarrow> False)
      | _ \<Rightarrow> False)"

text \<open>The four texels that \<open>sample_linear\<close> mixes at a coordinate.\<close>

definition footprint :: "int \<Rightarrow> int \<Rightarrow> vec2 \<Rightarrow> (int \<times> int) list" where
  "footprint w h uv =
     (let x = clamp_coord w (fst uv) * real_of_int w - 1 / 2;
          y = clamp_coord h (snd uv) * real_of_int h - 1 / 2;
          i = \<lfloor>x\<rfloor>; j = \<lfloor>y\<rfloor>;
          i0 = texel_index w i; i1 = texel_index w (i + 1);
          j0 = texel_index h j; j1 = texel_index h (j + 1)
      in [(i0, j0), (i1, j0), (i0, j1), (i1, j1)])"

text \<open>A texture of the caller: its sampler does not depend on the texels of the
  renderer.\<close>

definition caller_texture :: "env \<Rightarrow> texture option \<Rightarrow> bool" where
  "caller_texture e t =
     (case t of
        None \<Rightarrow> True
      | Some n \<Rightarrow> (case textures e n of Some (Some w, Some h) \<Rightarrow> False | _ \<Rightarrow> True))"

definition pixels :: "int \<times> int \<Rightarrow> (int \<times> int) list" where
  "pixels canvas =
     concat (map (\<lambda>i. map (\<lambda>j. (i, j)) [0 .. snd canvas - 1]) [0 .. fst canvas - 1])"

text \<open>
  \<open>reads_within canvas e ext t K c\<close>: the call \<open>c\<close> is a draw that WebGL carries
  out, its background and depth textures are textures of the caller, and every
  texel of the stereogram texture \<open>t\<close> that one of its fragments samples is in
  \<open>K\<close>.  A call that is not a draw reads no texture.
\<close>

definition reads_within ::
  "int \<times> int \<Rightarrow> env \<Rightarrow> (texture option \<Rightarrow> sampler) \<Rightarrow> texture \<Rightarrow> (int \<times> int) set
     \<Rightarrow> gl_cmd \<Rightarrow> bool" where
  "reads_within canvas e ext t K c =
     (case c of
        DrawArrays p position uv \<Rightarrow>
          (case quad_of position uv of
             None \<Rightarrow> False
           | Some (x0, x1, u0, u1, v0, v1) \<Rightarrow>
               (case p of
                  NoiseProgram seed \<Rightarrow> seed \<noteq> None
                | TextureProgram tile \<Rightarrow> caller_texture e tile
                | StereoProgram ssize depth_strip_size dfactor depth_map stereo \<Rightarrow>
                    (case (ssize, depth_strip_size, dfactor, textures e t) of
                       (Some ss, Some dss, Some df, Some (Some w, Some h)) \<Rightarrow>
                         caller_texture e depth_map \<and> stereo = Some t
                         \<and> list_all (\<lambda>px.
                               covered canvas x0 x1 px \<longrightarrow>
                               set (footprint w h
                                      (stereo_read (ext depth_map) df ss dss
                                         (varying x0 x1 u0 u1 v0 v1 (pixel_centre canvas px))))
                                 \<subseteq> K)
                             (pixels canvas)
                     | _ \<Rightarrow> False)))
      | _ \<Rightarrow> True)"

text \<open>The texels of the texture \<open>t\<close> that a call writes from the framebuffer, and
  those that a list of calls writes.\<close>

definition written :: "env \<Rightarrow> texture \<Rightarrow> gl_cmd \<Rightarrow> (int \<times> int) set" where
  "written e t c =
     (case c of
        CopyTexSubImage2D t' x w h \<Rightarrow> if t' = Some t then {px. copies e c px} else {}
      | _ \<Rightarrow> {})"

fun committed :: "env \<Rightarrow> texture \<Rightarrow> gl_cmd list \<Rightarrow> (int \<times> int) set" where
  "committed e t [] = {}"
| "committed e t (c # cs) = written e t c \<union> committed e t cs"

text \<open>
  \<open>reads_committed canvas e ext t K calls\<close>: in the list of calls, every draw
  samples the texture \<open>t\<close> only at texels that are in \<open>K\<close> or that an earlier copy
  of the list has written.
\<close>

fun reads_committed ::
  "int \<times> int \<Rightarrow> env \<Rightarrow> (texture option \<Rightarrow> sampler) \<Rightarrow> texture \<Rightarrow> (int \<times> int) set
     \<Rightarrow> gl_cmd list \<Rightarrow> bool" where
  "reads_committed canvas e ext t K [] = True"
| "reads_committed canvas e ext t K (c # cs) =
     (reads_within canvas e ext t K c
      \<and> reads_committed canvas e ext t (K \<union> written e t c) cs)"

text \<open>
  A small renderer to run: \<open>8 \<times> 1\<close> pixels, two strips of one sub-strip each,
  \<^verbatim>\<open>depth_factor\<close> \<open>1/4\<close>, tiled background.  It is what
  \<^verbatim>\<open>new Stereogram.Renderer(gl, 8, 1)\<close> followed by \<^verbatim>\<open>setNumStrips(2)\<close>,
  \<^verbatim>\<open>setNumSubStrips(1)\<close>, \<^verbatim>\<open>setDepthFactor(0.25)\<close>,
  \<^verbatim>\<open>setBackgroundMode(Stereogram.BG_TILE)\<close> and \<^verbatim>\<open>setBackgroundTileTexture(tile)\<close>
  gives.  The tile is the caller's texture \<open>10\<close>, the depth map the caller's
  texture \<open>11\<close>; both are white everywhere.  The stereogram texture is new.
\<close>

definition demo_renderer :: renderer where
  "demo_renderer =
     \<lparr>render_width = Some 8, render_height = Some 1, stereo_texture = Some 0,
      num_strips = Some 2, num_sub_strips = Some 1, strip_size = Some (1 / 2),
      depth_factor = Some (1 / 4), background_mode = Some BG_TILE,
      noise_seed = Some 0, tile_texture = Some 10, bg_scroll_x = Some 0,
      bg_scroll_y = Some 0\<rparr>"

definition demo_env :: env where
  "demo_env =
     \<lparr>global_gl = True, shaders_compile = True, next_texture = 1,
      textures = [0 \<mapsto> (Some 8, Some 1)],
      gl_log = [CreateTexture 0 (Some 8) (Some 1)]\<rparr>"

definition new_env :: env where
  "new_env =
     \<lparr>global_gl = True, shaders_compile = True, next_texture = 0,
      textures = Map.empty, gl_log = []\<rparr>"

definition white_textures :: "texture option \<Rightarrow> sampler" where
  "white_textures t uv = (1, 1, 1, 1)"

definition blank_state :: gl_state where
  "blank_state = \<lparr>framebuffer = (\<lambda>px. black), texels = (\<lambda>t px. black)\<rparr>"

definition white_state :: gl_state where
  "white_state = \<lparr>framebuffer = (\<lambda>px. (1, 1, 1, 1)), texels = (\<lambda>t px. (1, 1, 1, 1))\<rparr>"

section \<open>Facts about rounding\<close>

lemma pow2_powr: "pow2 e = 2 powr real_of_int e"
proof (cases "0 \<le> e")
  case True
  then have "2 powr real_of_int e = 2 powr real (nat e)" by simp
  also have "\<dots> = 2 ^ nat e" by (simp only: powr_realpow [of 2, simplified])
  finally show ?thesis using True by (simp add: pow2_def)
next
  case False
  then have "real_of_int e = - real (nat (- e))" by simp
  then have "2 powr real_of_int e = 1 / 2 powr real (nat (- e))"
    by (simp only: powr_minus_divide)
  also have "\<dots> = 1 / 2 ^ nat (- e)" by (simp only: powr_realpow [of 2, simplified])
  finally show ?thesis using False by (simp add: pow2_def)
qed

lemma pow2_pos: "0 < pow2 e"
  by (simp add: pow2_powr)

lemma pow2_add: "pow2 (a + b) = pow2 a * pow2 b"
  by (simp add: pow2_powr powr_add)

lemma pow2_mono: "a \<le> b \<Longrightarrow> pow2 a \<le> pow2 b"
  by (simp add: pow2_powr)

lemma pow2_nat: "0 \<le> e \<Longrightarrow> pow2 e = real_of_int (2 ^ nat e)"
  by (simp add: pow2_def)

lemma expo_bounds:
  assumes "0 < x"
  shows "pow2 (expo x) \<le> x" and "x < pow2 (expo x + 1)"
proof -
  have "pow2 (expo x) \<le> x \<and> x < pow2 (expo x + 1)"
  proof (cases "1 \<le> x")
    case True
    let ?m = "\<lfloor>x\<rfloor>"
    have m: "0 < ?m" using True by simp
    have b: "1 \<le> bitlen ?m" using m bitlen_eq_zero_iff [of ?m] bitlen_nonneg [of ?m] by linarith
    have e: "expo x = bitlen ?m - 1" using True by (simp add: expo_def)
    from bitlen_bounds [OF m] have lo: "2 ^ nat (bitlen ?m - 1) \<le> ?m" and hi: "?m < 2 ^ nat (bitlen ?m)"
      by simp_all
    have "pow2 (expo x) = real_of_int (2 ^ nat (bitlen ?m - 1))"
      unfolding e using b by (simp add: pow2_nat)
    also have "\<dots> \<le> real_of_int ?m" using lo by (simp only: of_int_le_iff)
    also have "\<dots> \<le> x" by simp
    finally have 1: "pow2 (expo x) \<le> x" .
    have "?m + 1 \<le> 2 ^ nat (bitlen ?m)" using hi by simp
    then have "real_of_int (?m + 1) \<le> real_of_int (2 ^ nat (bitlen ?m))" by (simp only: of_int_le_iff)
    moreover have "x < real_of_int (?m + 1)" by simp
    moreover have "pow2 (expo x + 1) = real_of_int (2 ^ nat (bitlen ?m))"
      unfolding e using b by (simp add: pow2_nat)
    ultimately have 2: "x < pow2 (expo x + 1)" by linarith
    from 1 2 show ?thesis by simp
  next
    case False
    then have x1: "x < 1" by simp
    let ?y = "1 / x"
    let ?m = "\<lceil>?y\<rceil> - 1"
    have y1: "1 < ?y" using assms x1 by simp
    have m: "0 < ?m" using y1 by linarith
    have b: "1 \<le> bitlen ?m" using m bitlen_eq_zero_iff [of ?m] bitlen_nonneg [of ?m] by linarith
    have e: "expo x = - bitlen ?m" using False by (simp add: expo_def)
    from bitlen_bounds [OF m] have lo: "2 ^ nat (bitlen ?m - 1) \<le> ?m" and hi: "?m < 2 ^ nat (bitlen ?m)"
      by simp_all
    \<comment> \<open>\<open>?y \<le> 2 ^ bitlen\<close>\<close>
    have "\<lceil>?y\<rceil> \<le> 2 ^ nat (bitlen ?m)" using hi by simp
    then have "?y \<le> real_of_int (2 ^ nat (bitlen ?m))" by (simp only: ceiling_le_iff)
    then have yhi: "?y \<le> 2 ^ nat (bitlen ?m)" by simp
    \<comment> \<open>\<open>2 ^ (bitlen - 1) < ?y\<close>\<close>
    have "real_of_int (2 ^ nat (bitlen ?m - 1)) \<le> real_of_int ?m" using lo by (simp only: of_int_le_iff)
    moreover have "real_of_int ?m < ?y" by linarith
    ultimately have ylo: "2 ^ nat (bitlen ?m - 1) < ?y" by simp
    have p1: "pow2 (expo x) = 1 / 2 ^ nat (bitlen ?m)"
      unfolding e using b by (simp add: pow2_def)
    have "1 / 2 ^ nat (bitlen ?m) \<le> x"
    proof -
      have "1 \<le> x * 2 ^ nat (bitlen ?m)"
        using yhi assms by (simp add: field_simps)
      then show ?thesis by (simp add: field_simps)
    qed
    with p1 have 1: "pow2 (expo x) \<le> x" by simp
    have p2: "pow2 (expo x + 1) = 1 / 2 ^ nat (bitlen ?m - 1)"
    proof (cases "bitlen ?m = 1")
      case True
      then show ?thesis unfolding e by (simp add: pow2_def)
    next
      case False
      with b have "- bitlen ?m + 1 < 0" by simp
      then show ?thesis unfolding e by (simp add: pow2_def)
    qed
    have "x < 1 / 2 ^ nat (bitlen ?m - 1)"
    proof -
      have "x * 2 ^ nat (bitlen ?m - 1) < 1"
        using ylo assms by (simp add: field_simps)
      then show ?thesis by (simp add: field_simps)
    qed
    with p2 have 2: "x < pow2 (expo x + 1)" by simp
    from 1 2 show ?thesis by simp
  qed
  then show "pow2 (expo x) \<le> x" and "x < pow2 (expo x + 1)" by simp_all
qed

lemma round_even_of_int: "round_even (real_of_int n) = n"
  by (simp add: round_even_def)

lemma round_even_ge: "real_of_int n \<le> x \<Longrightarrow> n \<le> round_even x"
proof -
  assume "real_of_int n \<le> x"
  then have "n \<le> \<lfloor>x\<rfloor>" by (simp add: le_floor_iff)
  then show ?thesis by (simp add: round_even_def Let_def)
qed

lemma round_even_le: "x \<le> real_of_int n \<Longrightarrow> round_even x \<le> n"
proof -
  assume a: "x \<le> real_of_int n"
  show ?thesis
  proof (cases "x = real_of_int n")
    case True
    then show ?thesis by (simp add: round_even_of_int)
  next
    case False
    with a have "x < real_of_int n" by simp
    then have "\<lfloor>x\<rfloor> < n" by (simp add: floor_less_iff)
    then show ?thesis by (simp add: round_even_def Let_def)
  qed
qed

lemma round_even_minus: "round_even (- z) = - round_even z"
proof (cases "z \<in> \<int>")
  case True
  then obtain n where "z = real_of_int n" by (auto elim: Ints_cases)
  then have "- z = real_of_int (- n)" by simp
  then show ?thesis using \<open>z = real_of_int n\<close> by (simp only: round_even_of_int)
next
  case False
  define f where "f = \<lfloor>z\<rfloor>"
  define d where "d = z - real_of_int f"
  have ne: "z \<noteq> real_of_int \<lfloor>z\<rfloor>"
  proof
    assume "z = real_of_int \<lfloor>z\<rfloor>"
    then have "z \<in> \<int>" by (rule ssubst) (rule Ints_of_int)
    with False show False by simp
  qed
  have fl: "\<lfloor>- z\<rfloor> = - f - 1"
    using ne unfolding f_def by (simp add: floor_minus ceiling_altdef)
  have d0: "0 < d" "d < 1"
  proof -
    have "real_of_int f \<le> z" unfolding f_def by simp
    moreover have "real_of_int f \<noteq> z"
    proof
      assume "real_of_int f = z"
      then have "z \<in> \<int>" by (rule subst) (rule Ints_of_int)
      with False show False by simp
    qed
    ultimately show "0 < d" unfolding d_def by simp
    show "d < 1" unfolding d_def f_def by linarith
  qed
  have d': "- z - real_of_int (- f - 1) = 1 - d" unfolding d_def by simp
  have 1: "round_even z = (if d < 1 / 2 then f else if 1 / 2 < d then f + 1 else if even f then f else f + 1)"
    by (simp add: round_even_def Let_def f_def d_def)
  have 2: "round_even (- z) = (if 1 - d < 1 / 2 then - f - 1 else if 1 / 2 < 1 - d then - f
        else if even (- f - 1) then - f - 1 else - f)"
    unfolding round_even_def Let_def fl d' by simp
  show ?thesis
  proof (cases "d < 1 / 2")
    case True
    then show ?thesis unfolding 1 2 by simp
  next
    case nl: False
    show ?thesis
    proof (cases "1 / 2 < d")
      case True
      then show ?thesis unfolding 1 2 by simp
    next
      case False
      with nl have "d = 1 / 2" by simp
      then show ?thesis unfolding 1 2 by simp
    qed
  qed
qed

lemma rnd_minus: "rnd p emin (- x) = - rnd p emin x"
  by (simp add: rnd_def Let_def round_even_minus)

lemma rnd_pos_eq:
  "0 < x \<Longrightarrow> rnd p emin x =
     real_of_int (round_even (x / pow2 (max (expo x) emin - (p - 1)))) * pow2 (max (expo x) emin - (p - 1))"
  by (simp add: rnd_def Let_def)

lemma rnd_nonneg: "0 \<le> x \<Longrightarrow> 0 \<le> rnd p emin x"
proof (cases "x = 0")
  case True
  then show ?thesis by (simp add: rnd_def)
next
  case False
  assume "0 \<le> x"
  with False have x: "0 < x" by simp
  let ?u = "pow2 (max (expo x) emin - (p - 1))"
  have "real_of_int 0 \<le> x / ?u" using x pow2_pos [of "max (expo x) emin - (p - 1)"] by simp
  then have "0 \<le> round_even (x / ?u)" by (rule round_even_ge)
  then show ?thesis
    unfolding rnd_pos_eq [OF x] using pow2_pos [of "max (expo x) emin - (p - 1)"] by simp
qed

lemma scaled_int:
  assumes "i \<le> j"
  shows "real_of_int k * pow2 j / pow2 i = real_of_int (k * 2 ^ nat (j - i))"
proof -
  have "pow2 j = pow2 (j - i) * pow2 i" using pow2_add [of "j - i" i] by simp
  moreover have "pow2 (j - i) = real_of_int (2 ^ nat (j - i))" using assms by (simp add: pow2_nat)
  ultimately show ?thesis using pow2_pos [of i] by simp
qed

lemma small_representable:
  assumes "0 < k" and "k \<le> 2 ^ nat p" and "j \<le> e - p" and "0 \<le> p"
  shows "real_of_int k * pow2 j \<le> pow2 e"
proof -
  have "real_of_int k \<le> real_of_int (2 ^ nat p)" using assms(2) by (simp only: of_int_le_iff)
  also have "\<dots> = pow2 p" using assms(4) by (simp add: pow2_nat)
  finally have "real_of_int k * pow2 j \<le> pow2 p * pow2 j"
    using pow2_pos [of j] by simp
  also have "\<dots> = pow2 (p + j)" by (simp add: pow2_add)
  also have "\<dots> \<le> pow2 e" using assms(3) by (intro pow2_mono) simp
  finally show ?thesis .
qed

lemma rnd_ge_pos:
  assumes "0 < k" and "k \<le> 2 ^ nat p" and "emin - (p - 1) \<le> j" and "1 \<le> p"
    and "real_of_int k * pow2 j \<le> x"
  shows "real_of_int k * pow2 j \<le> rnd p emin x"
proof -
  let ?y = "real_of_int k * pow2 j"
  have y: "0 < ?y" using assms(1) pow2_pos [of j] by simp
  with assms(5) have x: "0 < x" by simp
  define e where "e = max (expo x) emin"
  define i where "i = e - (p - 1)"
  have u: "0 < pow2 i" by (rule pow2_pos)
  have r: "rnd p emin x = real_of_int (round_even (x / pow2 i)) * pow2 i"
    unfolding i_def e_def by (rule rnd_pos_eq [OF x])
  show ?thesis
  proof (cases "i \<le> j")
    case True
    have "real_of_int (k * 2 ^ nat (j - i)) = ?y / pow2 i" by (rule scaled_int [OF True, symmetric])
    also have "\<dots> \<le> x / pow2 i" using assms(5) u by (simp add: divide_right_mono)
    finally have "k * 2 ^ nat (j - i) \<le> round_even (x / pow2 i)" by (rule round_even_ge)
    then have "real_of_int (k * 2 ^ nat (j - i)) \<le> real_of_int (round_even (x / pow2 i))"
      by (simp only: of_int_le_iff)
    then have "?y / pow2 i \<le> real_of_int (round_even (x / pow2 i))"
      by (simp only: scaled_int [OF True])
    then have "?y \<le> real_of_int (round_even (x / pow2 i)) * pow2 i"
      using u by (simp add: pos_divide_le_eq)
    then show ?thesis unfolding r .
  next
    case False
    then have ji: "j \<le> e - p" unfolding i_def by simp
    with assms(3) have "emin < e" by simp
    then have ex: "e = expo x" unfolding e_def by simp
    have p0: "0 \<le> p" using assms(4) by linarith
    have "?y \<le> pow2 e" using assms(1,2) ji p0 by (rule small_representable)
    have ele: "pow2 e \<le> x" unfolding ex by (rule expo_bounds(1) [OF x])
    have ie: "i \<le> e" unfolding i_def using assms(4) by simp
    have "real_of_int (1 * 2 ^ nat (e - i)) = real_of_int 1 * pow2 e / pow2 i"
      by (rule scaled_int [OF ie, symmetric])
    also have "\<dots> \<le> x / pow2 i" using ele u by (simp add: divide_right_mono)
    finally have "1 * 2 ^ nat (e - i) \<le> round_even (x / pow2 i)" by (rule round_even_ge)
    then have "real_of_int (1 * 2 ^ nat (e - i)) \<le> real_of_int (round_even (x / pow2 i))"
      by (simp only: of_int_le_iff)
    then have "real_of_int 1 * pow2 e / pow2 i \<le> real_of_int (round_even (x / pow2 i))"
      by (simp only: scaled_int [OF ie])
    then have "pow2 e \<le> real_of_int (round_even (x / pow2 i)) * pow2 i"
      using u by (simp add: pos_divide_le_eq)
    with \<open>?y \<le> pow2 e\<close> show ?thesis unfolding r by linarith
  qed
qed

lemma rnd_le_pos:
  assumes "0 < x" and "k \<le> 2 ^ nat p" and "emin - (p - 1) \<le> j" and "1 \<le> p"
    and "x \<le> real_of_int k * pow2 j"
  shows "rnd p emin x \<le> real_of_int k * pow2 j"
proof -
  let ?y = "real_of_int k * pow2 j"
  have y: "0 < ?y" using assms(1,5) by simp
  then have k: "0 < k" using pow2_pos [of j] by (simp add: zero_less_mult_iff)
  define e where "e = max (expo x) emin"
  define i where "i = e - (p - 1)"
  have u: "0 < pow2 i" by (rule pow2_pos)
  have r: "rnd p emin x = real_of_int (round_even (x / pow2 i)) * pow2 i"
    unfolding i_def e_def by (rule rnd_pos_eq [OF assms(1)])
  show ?thesis
  proof (cases "i \<le> j")
    case True
    have "x / pow2 i \<le> ?y / pow2 i" using assms(5) u by (simp add: divide_right_mono)
    also have "\<dots> = real_of_int (k * 2 ^ nat (j - i))" by (rule scaled_int [OF True])
    finally have "round_even (x / pow2 i) \<le> k * 2 ^ nat (j - i)" by (rule round_even_le)
    then have "real_of_int (round_even (x / pow2 i)) \<le> real_of_int (k * 2 ^ nat (j - i))"
      by (simp only: of_int_le_iff)
    then have "real_of_int (round_even (x / pow2 i)) \<le> ?y / pow2 i"
      by (simp only: scaled_int [OF True])
    then have "real_of_int (round_even (x / pow2 i)) * pow2 i \<le> ?y"
      using u by (simp add: pos_le_divide_eq)
    then show ?thesis unfolding r .
  next
    case False
    then have ji: "j \<le> e - p" unfolding i_def by simp
    with assms(3) have "emin < e" by simp
    then have ex: "e = expo x" unfolding e_def by simp
    have p0: "0 \<le> p" using assms(4) by linarith
    have "?y \<le> pow2 e" using k assms(2) ji p0 by (rule small_representable)
    moreover have "pow2 e \<le> x" unfolding ex by (rule expo_bounds(1) [OF assms(1)])
    ultimately have xe: "x = pow2 e" and ye: "?y = pow2 e" using assms(5) by simp_all
    have ie: "i \<le> e" unfolding i_def using assms(4) by simp
    have "x / pow2 i = real_of_int (1 * 2 ^ nat (e - i))"
      unfolding xe using scaled_int [OF ie, of 1] by simp
    then have "round_even (x / pow2 i) = 1 * 2 ^ nat (e - i)" by (simp only: round_even_of_int)
    then have "real_of_int (round_even (x / pow2 i)) = real_of_int 1 * pow2 e / pow2 i"
      by (simp only: scaled_int [OF ie])
    then have "rnd p emin x = pow2 e" unfolding r using u by simp
    then show ?thesis using ye by simp
  qed
qed

lemma rnd_mono_ge:
  assumes "representable p emin y" and "1 \<le> p" and "y \<le> x"
  shows "y \<le> rnd p emin x"
proof -
  from assms(1) obtain k j where y: "y = real_of_int k * pow2 j"
    and k: "\<bar>k\<bar> \<le> 2 ^ nat p" and j: "emin - (p - 1) \<le> j"
    unfolding representable_def by blast
  consider "0 < y" | "y \<le> 0" "0 \<le> x" | "x < 0" by linarith
  then show ?thesis
  proof cases
    case 1
    then have "0 < k" unfolding y using pow2_pos [of j] by (simp add: zero_less_mult_iff)
    moreover have "k \<le> 2 ^ nat p" using k by simp
    ultimately show ?thesis using j assms(2,3) unfolding y by (intro rnd_ge_pos)
  next
    case 2
    then show ?thesis using rnd_nonneg [of x p emin] by simp
  next
    case 3
    have "- y = real_of_int (- k) * pow2 j" unfolding y by simp
    moreover have "- k \<le> 2 ^ nat p" using k by simp
    moreover have "- x \<le> - y" using assms(3) by simp
    moreover have "0 < - x" using 3 by simp
    ultimately have "rnd p emin (- x) \<le> real_of_int (- k) * pow2 j"
      using j assms(2) by (intro rnd_le_pos) simp_all
    then show ?thesis unfolding y by (simp add: rnd_minus)
  qed
qed

lemma representable_minus: "representable p emin y \<Longrightarrow> representable p emin (- y)"
proof -
  assume "representable p emin y"
  then obtain k j where "y = real_of_int k * pow2 j" "\<bar>k\<bar> \<le> 2 ^ nat p" "emin - (p - 1) \<le> j"
    unfolding representable_def by blast
  then have "- y = real_of_int (- k) * pow2 j \<and> \<bar>- k\<bar> \<le> 2 ^ nat p \<and> emin - (p - 1) \<le> j"
    by simp
  then show ?thesis unfolding representable_def by blast
qed

lemma rnd_mono_le:
  assumes "representable p emin y" and "1 \<le> p" and "x \<le> y"
  shows "rnd p emin x \<le> y"
proof -
  have "- y \<le> rnd p emin (- x)"
    using representable_minus [OF assms(1)] assms(2,3) by (intro rnd_mono_ge) simp_all
  then show ?thesis by (simp add: rnd_minus)
qed

lemma rnd_representable:
  "representable p emin y \<Longrightarrow> 1 \<le> p \<Longrightarrow> rnd p emin y = y"
  using rnd_mono_ge [of p emin y y] rnd_mono_le [of p emin y y] by simp

lemma representable_int:
  "\<bar>k\<bar> \<le> 2 ^ nat p \<Longrightarrow> emin - (p - 1) \<le> 0 \<Longrightarrow> representable p emin (real_of_int k)"
  unfolding representable_def by (rule exI [of _ k], rule exI [of _ 0]) (simp add: pow2_def)

lemma representable_pow2:
  "emin - (p - 1) \<le> j \<Longrightarrow> representable p emin (pow2 j)"
  unfolding representable_def by (rule exI [of _ 1], rule exI [of _ j]) simp

section \<open>The error of rounding\<close>

lemma round_even_err: "\<bar>real_of_int (round_even z) - z\<bar> \<le> 1 / 2"
proof -
  define f where "f = \<lfloor>z\<rfloor>"
  define d where "d = z - real_of_int f"
  have d: "0 \<le> d" "d < 1" unfolding d_def f_def by linarith+
  have z: "z = real_of_int f + d" unfolding d_def by simp
  have r: "round_even z = (if d < 1 / 2 then f else if 1 / 2 < d then f + 1
      else if even f then f else f + 1)"
    by (simp add: round_even_def Let_def f_def d_def)
  show ?thesis unfolding r using d z by auto
qed

lemma pow2_pred: "pow2 (e - 1) = pow2 e / 2"
proof -
  have "pow2 (e - 1) = pow2 e * pow2 (- 1)" using pow2_add [of e "- 1"] by simp
  also have "pow2 (- 1) = 1 / 2" by (simp add: pow2_def)
  finally show ?thesis by simp
qed

lemma rnd_err:
  assumes "0 < x"
  shows "\<bar>rnd p emin x - x\<bar> \<le> pow2 (max (expo x) emin - p)"
proof -
  define i where "i = max (expo x) emin - (p - 1)"
  have u: "0 < pow2 i" by (rule pow2_pos)
  have r: "rnd p emin x = real_of_int (round_even (x / pow2 i)) * pow2 i"
    unfolding i_def by (rule rnd_pos_eq [OF assms])
  have "\<bar>real_of_int (round_even (x / pow2 i)) - x / pow2 i\<bar> * pow2 i \<le> 1 / 2 * pow2 i"
    using round_even_err [of "x / pow2 i"] u by (intro mult_right_mono) simp_all
  moreover have "\<bar>real_of_int (round_even (x / pow2 i)) - x / pow2 i\<bar> * pow2 i
      = \<bar>real_of_int (round_even (x / pow2 i)) * pow2 i - x\<bar>"
  proof -
    have "\<bar>real_of_int (round_even (x / pow2 i)) - x / pow2 i\<bar> * pow2 i
        = \<bar>(real_of_int (round_even (x / pow2 i)) - x / pow2 i) * pow2 i\<bar>"
      using u by (simp add: abs_mult)
    also have "(real_of_int (round_even (x / pow2 i)) - x / pow2 i) * pow2 i
        = real_of_int (round_even (x / pow2 i)) * pow2 i - x"
      using u by (simp add: algebra_simps)
    finally show ?thesis .
  qed
  moreover have "1 / 2 * pow2 i = pow2 (max (expo x) emin - p)"
  proof -
    have "max (expo x) emin - p = i - 1" unfolding i_def by simp
    then show ?thesis by (simp add: pow2_pred)
  qed
  ultimately show ?thesis unfolding r by simp
qed

lemma pow2_less_cancel: "pow2 a < pow2 b \<Longrightarrow> a < b"
  using pow2_mono [of b a] by (cases "a < b") simp_all

lemma expo_ge: "0 < x \<Longrightarrow> pow2 k \<le> x \<Longrightarrow> k \<le> expo x"
proof -
  assume x: "0 < x" and k: "pow2 k \<le> x"
  have "x < pow2 (expo x + 1)" by (rule expo_bounds(2) [OF x])
  with k have "pow2 k < pow2 (expo x + 1)" by simp
  then have "k < expo x + 1" by (rule pow2_less_cancel)
  then show ?thesis by simp
qed

lemma rnd_rel_err:
  assumes "pow2 emin \<le> x"
  shows "\<bar>rnd p emin x - x\<bar> \<le> x * pow2 (- p)"
proof -
  have x: "0 < x" using assms pow2_pos [of emin] by linarith
  have "emin \<le> expo x" using x assms by (rule expo_ge)
  then have m: "max (expo x) emin = expo x" by simp
  have "\<bar>rnd p emin x - x\<bar> \<le> pow2 (expo x - p)"
    using rnd_err [OF x, of p emin] unfolding m .
  also have "pow2 (expo x - p) = pow2 (expo x) * pow2 (- p)"
    using pow2_add [of "expo x" "- p"] by simp
  also have "\<dots> \<le> x * pow2 (- p)"
    using expo_bounds(1) [OF x] pow2_pos [of "- p"] by (intro mult_right_mono) simp_all
  finally show ?thesis .
qed

lemma round_double_quotient_no_integer:
  assumes "0 < a" and "0 < b" and "a \<le> 2 ^ 53" and "b \<le> 2 ^ 53"
    and "real_of_int M \<noteq> real_of_int a / real_of_int b"
  shows "round_double (real_of_int a / real_of_int b) \<noteq> real_of_int M"
proof
  define x where "x = real_of_int a / real_of_int b"
  assume "round_double (real_of_int a / real_of_int b) = real_of_int M"
  then have eq: "rnd 53 (- 1022) x = real_of_int M" unfolding round_double_def x_def .
  have x: "0 < x" unfolding x_def using assms(1,2) by simp
  have bpos: "0 < real_of_int b" using assms(2) by simp
  have gap: "1 / real_of_int b \<le> \<bar>real_of_int M - x\<bar>"
  proof -
    have "real_of_int M - x = real_of_int (M * b - a) / real_of_int b"
      unfolding x_def using bpos by (simp add: field_simps)
    moreover have "M * b - a \<noteq> 0"
    proof
      assume "M * b - a = 0"
      then have "a = M * b" by simp
      then have "real_of_int a / real_of_int b = real_of_int M" using bpos by simp
      with assms(5) show False by simp
    qed
    then have "1 \<le> \<bar>M * b - a\<bar>" by simp
    then have "1 \<le> \<bar>real_of_int (M * b - a)\<bar>" by (simp only: flip: of_int_abs)
    ultimately show ?thesis using bpos by (simp add: abs_divide divide_right_mono)
  qed
  have err: "\<bar>real_of_int M - x\<bar> \<le> pow2 (max (expo x) (- 1022) - 53)"
    using rnd_err [OF x, of 53 "- 1022"] unfolding eq .
  have xb: "x / 2 ^ 53 \<le> 1 / real_of_int b"
  proof -
    have "real_of_int a \<le> 2 ^ 53" using assms(3) by (metis of_int_le_iff of_int_numeral of_int_power)
    then have "real_of_int a / real_of_int b \<le> 2 ^ 53 / real_of_int b"
      using bpos by (simp add: divide_right_mono)
    then show ?thesis unfolding x_def by (simp add: field_simps)
  qed
  show False
  proof (cases "- 1022 \<le> expo x")
    case True
    then have m: "max (expo x) (- 1022) = expo x" by simp
    have "pow2 (expo x - 53) = pow2 (expo x) * pow2 (- 53)"
      using pow2_add [of "expo x" "- 53"] by simp
    also have "\<dots> = pow2 (expo x) / 2 ^ 53" by (simp add: pow2_def)
    finally have p: "pow2 (expo x - 53) = pow2 (expo x) / 2 ^ 53" .
    have le: "pow2 (expo x) \<le> x" by (rule expo_bounds(1) [OF x])
    then have "pow2 (expo x) / 2 ^ 53 \<le> x / 2 ^ 53" by (simp add: divide_right_mono)
    with gap err xb have "x / 2 ^ 53 \<le> pow2 (expo x) / 2 ^ 53" unfolding m p by linarith
    then have "x \<le> pow2 (expo x)" by simp
    with le have xe: "x = pow2 (expo x)" by simp
    have "representable 53 (- 1022) (pow2 (expo x))"
      using True by (intro representable_pow2) simp
    then have "rnd 53 (- 1022) (pow2 (expo x)) = pow2 (expo x)"
      by (rule rnd_representable) simp
    then have "rnd 53 (- 1022) x = x" using xe by simp
    with eq have "real_of_int M = x" by simp
    with assms(5) show False unfolding x_def by simp
  next
    case False
    then have m: "max (expo x) (- 1022) = - 1022" by simp
    have "real_of_int b \<le> 2 ^ 53" using assms(4) by (metis of_int_le_iff of_int_numeral of_int_power)
    then have "1 / 2 ^ 53 \<le> 1 / real_of_int b"
      using bpos by (intro divide_left_mono) simp_all
    moreover have "pow2 (- 1022 - 53) < 1 / 2 ^ 53"
      by (simp add: pow2_def)
    ultimately show False using gap err unfolding m by linarith
  qed
qed

section \<open>Facts about the alignment loop\<close>

lemma round_double_int: "\<bar>k\<bar> \<le> 2 ^ 53 \<Longrightarrow> round_double (real_of_int k) = real_of_int k"
  unfolding round_double_def
  by (rule rnd_representable [OF representable_int]) simp_all

lemma js_incr_exact: "- (2 ^ 53) \<le> v \<Longrightarrow> v < 2 ^ 53 \<Longrightarrow> js_incr v = v + 1"
proof -
  assume "- (2 ^ 53) \<le> v" "v < 2 ^ 53"
  then have "\<bar>v + 1\<bar> \<le> 2 ^ 53" by simp
  then have "round_double (real_of_int (v + 1)) = real_of_int (v + 1)"
    by (rule round_double_int)
  then have "\<lfloor>round_double (real_of_int v + 1)\<rfloor> = v + 1"
    by (simp add: add.commute)
  then show ?thesis by (simp add: js_incr_def)
qed

lemma js_incr_stuck: "js_incr (2 ^ 53) = 2 ^ 53"
  by (simp add: js_incr_def round_double_def rnd_def expo_def pow2_def round_even_def
      compute_bitlen Let_def)

lemma smod_eq_0_iff_dvd: "(a::int) smod b = 0 \<longleftrightarrow> b dvd a"
  by (auto simp: signed_modulo_int_def sgn_if dvd_eq_mod_eq_0 [symmetric])

lemma js_rem_Some_0: "js_rem a b = Some 0 \<longleftrightarrow> b \<noteq> 0 \<and> b dvd a"
  by (simp add: js_rem_def smod_eq_0_iff_dvd)

lemma calc_strip_size_loop_aux:
  "n \<noteq> 0 \<Longrightarrow> nat ((- p) mod \<bar>n\<bar>) = k \<Longrightarrow> - (2 ^ 53) \<le> p \<Longrightarrow>
     p + (- p) mod \<bar>n\<bar> \<le> 2 ^ 53 \<Longrightarrow>
     calc_strip_size_loop n p = Some (p + (- p) mod \<bar>n\<bar>)"
proof (induction k arbitrary: p)
  case 0
  have "0 \<le> (- p) mod \<bar>n\<bar>"
    using 0(1) by simp
  moreover have "(- p) mod \<bar>n\<bar> \<le> 0"
    using 0(2) by simp
  ultimately have z: "(- p) mod \<bar>n\<bar> = 0"
    by (rule order_antisym [rotated])
  then have d: "n dvd p"
    by (simp add: dvd_eq_mod_eq_0 [symmetric])
  have "js_rem p n = Some 0"
    using d 0(1) by (simp add: js_rem_Some_0)
  then have "calc_strip_size_loop n p = Some p"
    by (subst calc_strip_size_loop.simps) simp
  then show ?case
    by (simp add: z)
next
  case (Suc k)
  let ?m = "\<bar>n\<bar>"
  have mpos: "0 < ?m" using Suc.prems by simp
  have r: "(- p) mod ?m = int k + 1"
    using Suc.prems(2) by (simp add: nat_eq_iff2)
  have nd: "\<not> n dvd p"
  proof
    assume "n dvd p"
    then have "(- p) mod ?m = 0" by (simp add: dvd_eq_mod_eq_0 [symmetric])
    with r show False by simp
  qed
  have step: "(- (p + 1)) mod ?m = int k"
  proof -
    have "(- (p + 1)) mod ?m = ((- p) mod ?m - 1) mod ?m"
      by (simp add: mod_diff_left_eq)
    also have "\<dots> = int k mod ?m" by (simp add: r)
    also have "\<dots> = int k"
    proof -
      have "int k + 1 < ?m" using r pos_mod_bound [OF mpos, of "- p"] by simp
      then show ?thesis by simp
    qed
    finally show ?thesis .
  qed
  have lt: "p < 2 ^ 53" using Suc.prems(4) r by simp
  have inc: "js_incr p = p + 1" using Suc.prems(3) lt by (rule js_incr_exact)
  have b1: "- (2 ^ 53) \<le> p + 1" using Suc.prems(3) by simp
  have b2: "p + 1 + (- (p + 1)) mod ?m \<le> 2 ^ 53" using Suc.prems(4) r step by simp
  have ih: "calc_strip_size_loop n (p + 1) = Some (p + 1 + (- (p + 1)) mod ?m)"
    by (rule Suc.IH [OF Suc.prems(1) _ b1 b2]) (use step in simp)
  have "js_rem p n \<noteq> Some 0"
    using nd by (simp add: js_rem_Some_0)
  then have "calc_strip_size_loop n p = calc_strip_size_loop n (p + 1)"
    by (subst calc_strip_size_loop.simps) (simp add: inc)
  then show ?case
    by (simp only: ih step r) simp
qed

lemma calc_strip_size_loop_eq:
  "n \<noteq> 0 \<Longrightarrow> - (2 ^ 53) \<le> p \<Longrightarrow> p + (- p) mod \<bar>n\<bar> \<le> 2 ^ 53 \<Longrightarrow>
     calc_strip_size_loop n p = Some (p + (- p) mod \<bar>n\<bar>)"
  by (rule calc_strip_size_loop_aux [OF _ refl])

lemma calc_strip_size_loop_stuck_aux:
  assumes "calc_strip_size_loop n p = Some y"
  shows "p = 2 ^ 53 \<longrightarrow> n dvd 2 ^ 53"
proof (rule calc_strip_size_loop.raw_induct
    [where P = "\<lambda>n p y. p = 2 ^ 53 \<longrightarrow> n dvd 2 ^ 53"
       and num_sub_strips = n and strip_size_pixels = p and y = y])
  fix loop :: "int \<Rightarrow> int \<Rightarrow> int option" and n p y :: int
  assume ih: "\<And>n p y. loop n p = Some y \<Longrightarrow> p = 2 ^ 53 \<longrightarrow> n dvd 2 ^ 53"
    and eq: "(if js_rem p n \<noteq> Some 0 then loop n (js_incr p) else Some p) = Some y"
  show "p = 2 ^ 53 \<longrightarrow> n dvd 2 ^ 53"
  proof
    assume p: "p = 2 ^ 53"
    show "n dvd 2 ^ 53"
    proof (rule ccontr)
      assume nd: "\<not> n dvd 2 ^ 53"
      then have "js_rem p n \<noteq> Some 0" using p by (simp add: js_rem_Some_0)
      with eq have "loop n (js_incr p) = Some y" by simp
      then have "js_incr p = 2 ^ 53 \<longrightarrow> n dvd 2 ^ 53" by (rule ih)
      with nd show False using js_incr_stuck by (simp add: p)
    qed
  qed
next
  show "calc_strip_size_loop n p = Some y" by (rule assms)
qed

lemma calc_strip_size_loop_stuck:
  "\<not> n dvd 2 ^ 53 \<Longrightarrow> calc_strip_size_loop n (2 ^ 53) = None"
  using calc_strip_size_loop_stuck_aux [of n "2 ^ 53"]
  by (cases "calc_strip_size_loop n (2 ^ 53)") auto

lemma ceil_div_eq_div [code]: "ceil_div a b = - ((- a) div b)"
  unfolding ceil_div_def by (rule ceiling_divide_eq_div)

lemma next_multiple:
  fixes n c :: int
  assumes "0 < n"
  defines "p \<equiv> c + (- c) mod n"
  shows "n dvd p" "c \<le> p" "p < c + n" "\<And>q. n dvd q \<Longrightarrow> c \<le> q \<Longrightarrow> p \<le> q"
proof -
  have "p mod n = (c + (- c)) mod n"
    unfolding p_def by (simp only: mod_add_right_eq)
  then show d: "n dvd p" by (simp add: dvd_eq_mod_eq_0)
  show lo: "c \<le> p" unfolding p_def using assms(1) by simp
  show hi: "p < c + n" unfolding p_def using assms(1) by simp
  fix q assume q: "n dvd q" "c \<le> q"
  show "p \<le> q"
  proof (rule ccontr)
    assume "\<not> p \<le> q"
    then have "0 < p - q" by simp
    moreover have "n dvd p - q" using d q(1) by (rule dvd_diff)
    ultimately have "n \<le> p - q" by (rule zdvd_imp_le [rotated])
    with hi q(2) show False by linarith
  qed
qed

lemma or_one_nonzero: "or_one v \<noteq> 0"
  by (simp add: or_one_def split: option.splits)

lemma calc_strip_size_pixels_eq:
  assumes "- (2 ^ 53) \<le> ceil_div (or_one rw) (or_one ns)"
    and "ceil_div (or_one rw) (or_one ns) + (- ceil_div (or_one rw) (or_one ns)) mod \<bar>or_one nss\<bar>
           \<le> 2 ^ 53"
  shows "calc_strip_size_pixels rw ns nss =
     Some (ceil_div (or_one rw) (or_one ns) + (- ceil_div (or_one rw) (or_one ns)) mod \<bar>or_one nss\<bar>)"
  unfolding calc_strip_size_pixels_def
  by (rule calc_strip_size_loop_eq [OF or_one_nonzero assms])

lemma calc_strip_size_cases:
  "calc_strip_size r = Diverges \<or> (\<exists>s. calc_strip_size r = Returns (r\<lparr>strip_size := s\<rparr>))"
proof (cases "calc_strip_size_pixels (render_width r) (num_strips r) (num_sub_strips r)")
  case None
  then show ?thesis by (simp add: calc_strip_size_def)
next
  case (Some a)
  then have "calc_strip_size r = Returns (r\<lparr>strip_size :=
      Some (real_of_int a / real_of_int (or_one (render_width r)))\<rparr>)"
    by (simp add: calc_strip_size_def)
  then show ?thesis by blast
qed

lemma ceil_div_abs_le: "b \<noteq> 0 \<Longrightarrow> \<bar>ceil_div a b\<bar> \<le> \<bar>a\<bar>"
proof -
  assume b: "b \<noteq> 0"
  have 1: "\<bar>real_of_int a / real_of_int b\<bar> \<le> real_of_int \<bar>a\<bar>"
  proof -
    have "1 \<le> \<bar>real_of_int b\<bar>" using b by (simp flip: of_int_abs)
    then have "\<bar>real_of_int a\<bar> / \<bar>real_of_int b\<bar> \<le> \<bar>real_of_int a\<bar> / 1"
      by (intro divide_left_mono) simp_all
    then show ?thesis by simp
  qed
  then have "real_of_int a / real_of_int b \<le> real_of_int \<bar>a\<bar>"
    and "real_of_int (- \<bar>a\<bar>) \<le> real_of_int a / real_of_int b"
    unfolding abs_le_iff by simp_all
  then have "ceil_div a b \<le> \<bar>a\<bar>" and "- \<bar>a\<bar> \<le> ceil_div a b"
    unfolding ceil_div_def by (simp_all add: ceiling_le_iff le_ceiling_iff del: of_int_minus of_int_abs)
  then show ?thesis by (simp add: abs_le_iff)
qed

lemma ceil_div_double:
  assumes "b \<noteq> 0" and "\<bar>a\<bar> \<le> 2 ^ 53" and "\<bar>b\<bar> \<le> 2 ^ 53"
  shows "\<lceil>round_double (real_of_int a / real_of_int b)\<rceil> = ceil_div a b"
proof -
  define q where "q = real_of_int a / real_of_int b"
  define c where "c = ceil_div a b"
  have cq: "c = \<lceil>q\<rceil>" unfolding c_def q_def ceil_div_def ..
  have cabs: "\<bar>c\<bar> \<le> 2 ^ 53"
    using ceil_div_abs_le [OF assms(1), of a] assms(2) unfolding c_def by linarith
  have qabs: "\<bar>q\<bar> = real_of_int \<bar>a\<bar> / real_of_int \<bar>b\<bar>"
    unfolding q_def by (simp add: abs_divide)
  have apos: "0 < \<bar>a\<bar>" if "q \<noteq> 0" using that unfolding q_def by auto
  have bpos: "0 < \<bar>b\<bar>" using assms(1) by simp
  have repc: "representable 53 (- 1022) (real_of_int c)"
    using cabs by (intro representable_int) simp_all
  have up: "round_double q \<le> real_of_int c"
    unfolding round_double_def using repc by (rule rnd_mono_le) (simp_all add: cq)
  have lo: "real_of_int c - 1 < round_double q"
  proof (cases "q = real_of_int c")
    case True
    have "round_double (real_of_int c) = real_of_int c"
      using cabs by (rule round_double_int)
    then show ?thesis unfolding True by simp
  next
    case ne: False
    have lt: "real_of_int c - 1 < q" unfolding cq by linarith
    have "q \<le> real_of_int c" unfolding cq by linarith
    with ne have qc: "q < real_of_int c" by simp
    have q0: "q \<noteq> 0"
    proof
      assume "q = 0"
      then have "c = 0" unfolding cq by simp
      with \<open>q = 0\<close> ne show False by simp
    qed
    show ?thesis
    proof (cases "0 < q")
      case True
      then have qa: "q = real_of_int \<bar>a\<bar> / real_of_int \<bar>b\<bar>" using qabs by simp
      have "0 < real_of_int c" using True qc by linarith
      then have c1: "1 \<le> c" by simp
      then have "\<bar>c - 1\<bar> \<le> 2 ^ 53" using cabs by simp
      then have rep: "representable 53 (- 1022) (real_of_int (c - 1))"
        by (intro representable_int) simp_all
      have "real_of_int (c - 1) \<le> round_double q"
        unfolding round_double_def using rep by (rule rnd_mono_ge) (use lt in simp_all)
      moreover have "round_double q \<noteq> real_of_int (c - 1)"
        unfolding qa
        by (rule round_double_quotient_no_integer [OF apos [OF q0] bpos assms(2,3)])
           (use lt qa in simp)
      ultimately show ?thesis by simp
    next
      case False
      with q0 have neg: "q < 0" by simp
      then have qa: "- q = real_of_int \<bar>a\<bar> / real_of_int \<bar>b\<bar>" using qabs by simp
      have rm: "round_double q = - round_double (- q)"
        unfolding round_double_def using rnd_minus [of 53 "- 1022" "- q"] by simp
      have "c \<noteq> - (2 ^ 53)"
      proof
        assume c: "c = - (2 ^ 53)"
        have "\<bar>q\<bar> \<le> real_of_int \<bar>a\<bar>"
        proof -
          have "1 \<le> real_of_int \<bar>b\<bar>" using bpos by simp
          then have "real_of_int \<bar>a\<bar> / real_of_int \<bar>b\<bar> \<le> real_of_int \<bar>a\<bar> / 1"
            by (intro divide_left_mono) simp_all
          then show ?thesis unfolding qabs by simp
        qed
        moreover have "real_of_int \<bar>a\<bar> \<le> 2 ^ 53"
          using assms(2) by (metis of_int_le_iff of_int_numeral of_int_power)
        ultimately have "- (2 ^ 53) \<le> q" by linarith
        with qc show False unfolding c by simp
      qed
      with cabs have "\<bar>1 - c\<bar> \<le> 2 ^ 53" by simp
      then have rep: "representable 53 (- 1022) (real_of_int (1 - c))"
        by (intro representable_int) simp_all
      have "round_double (- q) \<le> real_of_int (1 - c)"
        unfolding round_double_def using rep by (rule rnd_mono_le) (use lt in simp_all)
      moreover have "round_double (- q) \<noteq> real_of_int (1 - c)"
        unfolding qa
        by (rule round_double_quotient_no_integer [OF apos [OF q0] bpos assms(2,3)])
           (use lt qa in simp)
      ultimately have "round_double (- q) < real_of_int (1 - c)" by simp
      then show ?thesis unfolding rm by simp
    qed
  qed
  have "\<lceil>round_double q\<rceil> = c"
    using lo up by (intro ceiling_unique) simp_all
  then show ?thesis unfolding q_def c_def .
qed

section \<open>Claims about the strip geometry\<close>

text \<open>
  Claim C1 says that \<^verbatim>\<open>_calc_strip_size\<close> finds the smallest multiple for every
  \<open>render_width \<ge> 1\<close>, \<open>num_strips \<ge> 1\<close> and \<open>num_sub_strips \<ge> 1\<close>.  With
  \<open>render_width = 2 ^ 53 - 1\<close>, \<open>num_strips = 1\<close> and \<open>num_sub_strips = 3\<close> the loop
  starts at \<open>2 ^ 53 - 1\<close>, which is not a multiple of \<open>3\<close>, goes on to \<open>2 ^ 53\<close>,
  which is not one either, and stays there: \<^verbatim>\<open>strip_size_pixels++\<close> rounds
  \<open>2 ^ 53 + 1\<close> back to \<open>2 ^ 53\<close>.  The loop never exits and \<^verbatim>\<open>strip_size\<close> is
  never set.
\<close>

theorem calc_strip_size_never_exits:
  "calc_strip_size_pixels (Some (2 ^ 53 - 1)) (Some 1) (Some 3) = None
   \<and> calc_strip_size
        (unset_renderer\<lparr>render_width := Some (2 ^ 53 - 1), num_strips := Some 1,
           num_sub_strips := Some 3\<rparr>) = Diverges"
proof -
  have 1: "js_rem (2 ^ 53 - 1) 3 \<noteq> Some 0"
    by (simp add: js_rem_Some_0)
  have 2: "js_incr (2 ^ 53 - 1) = 2 ^ 53"
    using js_incr_exact [of "2 ^ 53 - 1"] by simp
  have 3: "calc_strip_size_loop 3 (2 ^ 53) = None"
    by (rule calc_strip_size_loop_stuck) simp
  have "calc_strip_size_loop 3 (2 ^ 53 - 1) = calc_strip_size_loop 3 (js_incr (2 ^ 53 - 1))"
    using 1 by (subst calc_strip_size_loop.simps) simp
  then have 4: "calc_strip_size_loop 3 (2 ^ 53 - 1) = None"
    by (simp only: 2 3)
  have "ceil_div (2 ^ 53 - 1) 1 = 2 ^ 53 - 1"
    by (simp add: ceil_div_eq_div)
  then have 5: "calc_strip_size_pixels (Some (2 ^ 53 - 1)) (Some 1) (Some 3) = None"
    using 4 by (simp add: calc_strip_size_pixels_def or_one_def)
  then show ?thesis
    by (simp add: calc_strip_size_def unset_renderer_def)
qed

text \<open>
  Claim C1, amended.  Let \<open>render_width\<close>, \<open>num_strips\<close> and \<open>num_sub_strips\<close> be
  integers from \<open>1\<close> to \<open>2 ^ 53\<close> such that some multiple \<open>m\<close> of \<open>num_sub_strips\<close>
  that is at least \<open>render_width / num_strips\<close> is at most \<open>2 ^ 53\<close>.  Then the loop
  of \<^verbatim>\<open>_calc_strip_size\<close> exits, and the value \<open>p\<close> of \<^verbatim>\<open>strip_size_pixels\<close> it
  exits with is the smallest integer that is at least \<open>render_width / num_strips\<close>
  and a multiple of \<open>num_sub_strips\<close>: \<open>p % num_sub_strips\<close> is \<open>0\<close>,
  \<open>render_width / num_strips \<le> p < render_width / num_strips + num_sub_strips\<close>,
  no smaller integer has both properties, and the field \<^verbatim>\<open>strip_size\<close> is set to
  \<open>p / render_width\<close>.
\<close>

theorem calc_strip_size_smallest_multiple:
  assumes "1 \<le> rw" and "1 \<le> ns" and "1 \<le> nss"
    and "rw \<le> 2 ^ 53" and "ns \<le> 2 ^ 53"
    and "nss dvd m" and "real_of_int rw / real_of_int ns \<le> real_of_int m" and "m \<le> 2 ^ 53"
    and "render_width r = Some rw" and "num_strips r = Some ns"
    and "num_sub_strips r = Some nss"
  shows "\<exists>p. calc_strip_size_pixels (render_width r) (num_strips r) (num_sub_strips r) = Some p
           \<and> js_rem p nss = Some 0
           \<and> real_of_int rw / real_of_int ns \<le> real_of_int p
           \<and> real_of_int p < real_of_int rw / real_of_int ns + real_of_int nss
           \<and> (\<forall>q. nss dvd q \<and> real_of_int rw / real_of_int ns \<le> real_of_int q \<longrightarrow> p \<le> q)
           \<and> calc_strip_size r = Returns (r\<lparr>strip_size := Some (real_of_int p / real_of_int rw)\<rparr>)"
proof -
  define c where "c = ceil_div rw ns"
  define p where "p = c + (- c) mod nss"
  have npos: "0 < nss" using assms(3) by simp
  have o: "or_one (Some rw) = rw" "or_one (Some ns) = ns" "or_one (Some nss) = nss"
    using assms(1-3) by (simp_all add: or_one_def)
  have c_ge: "real_of_int rw / real_of_int ns \<le> real_of_int c"
    unfolding c_def ceil_div_def by (rule le_of_int_ceiling)
  have c_lt: "real_of_int c < real_of_int rw / real_of_int ns + 1"
    unfolding c_def ceil_div_def by (rule ceiling_correct [THEN conjunct1, THEN diff_less_eq [THEN iffD1]])
  have "0 < real_of_int rw / real_of_int ns" using assms(1,2) by simp
  with c_ge have "0 < real_of_int c" by linarith
  then have c_pos: "0 < c" by simp
  have cm: "c \<le> m" using assms(7) unfolding c_def ceil_div_def by (simp add: ceiling_le_iff)
  have pm: "p \<le> m" unfolding p_def using assms(6) cm by (rule next_multiple(4) [OF npos])
  have b1: "- (2 ^ 53) \<le> ceil_div (or_one (Some rw)) (or_one (Some ns))"
    using c_pos by (simp add: o c_def)
  have b2: "ceil_div (or_one (Some rw)) (or_one (Some ns))
      + (- ceil_div (or_one (Some rw)) (or_one (Some ns))) mod \<bar>or_one (Some nss)\<bar> \<le> 2 ^ 53"
    using pm assms(8) npos by (simp add: o p_def c_def)
  have px: "calc_strip_size_pixels (render_width r) (num_strips r) (num_sub_strips r) = Some p"
    unfolding assms(9-11) calc_strip_size_pixels_eq [OF b1 b2]
    using npos by (simp add: o p_def c_def)
  have d: "nss dvd p" unfolding p_def by (rule next_multiple(1) [OF npos])
  have lo: "c \<le> p" unfolding p_def by (rule next_multiple(2) [OF npos])
  have hi: "p < c + nss" unfolding p_def by (rule next_multiple(3) [OF npos])
  have rem: "js_rem p nss = Some 0"
    using d npos by (simp add: js_rem_Some_0)
  have ge: "real_of_int rw / real_of_int ns \<le> real_of_int p"
    using c_ge lo by (meson of_int_le_iff order_trans)
  have "p + 1 \<le> c + nss" using hi by simp
  then have "real_of_int p + 1 \<le> real_of_int c + real_of_int nss"
    by (metis of_int_le_iff of_int_add of_int_1)
  with c_lt have lt: "real_of_int p < real_of_int rw / real_of_int ns + real_of_int nss"
    by linarith
  have least: "\<forall>q. nss dvd q \<and> real_of_int rw / real_of_int ns \<le> real_of_int q \<longrightarrow> p \<le> q"
  proof (intro allI impI, elim conjE)
    fix q assume q: "nss dvd q" "real_of_int rw / real_of_int ns \<le> real_of_int q"
    from q(2) have "c \<le> q" unfolding c_def ceil_div_def by (simp add: ceiling_le_iff)
    with q(1) show "p \<le> q" unfolding p_def by (rule next_multiple(4) [OF npos])
  qed
  have cs: "calc_strip_size r = Returns (r\<lparr>strip_size := Some (real_of_int p / real_of_int rw)\<rparr>)"
    using px by (simp add: calc_strip_size_def assms(9) o)
  from px rem ge lt least cs show ?thesis by blast
qed

text \<open>The claim at \<open>render_width = 640\<close>, \<open>num_strips = 6\<close>, \<open>num_sub_strips = 2\<close>,
  where \<open>108\<close> is such a multiple.\<close>

theorem calc_strip_size_smallest_multiple_witness:
  "\<exists>p. calc_strip_size_pixels (Some 640) (Some 6) (Some 2) = Some p
     \<and> js_rem p 2 = Some 0
     \<and> real_of_int 640 / real_of_int 6 \<le> real_of_int p
     \<and> real_of_int p < real_of_int 640 / real_of_int 6 + real_of_int 2
     \<and> (\<forall>q. 2 dvd q \<and> real_of_int 640 / real_of_int 6 \<le> real_of_int q \<longrightarrow> p \<le> q)
     \<and> calc_strip_size
           (unset_renderer\<lparr>render_width := Some 640, num_strips := Some 6, num_sub_strips := Some 2\<rparr>)
         = Returns (unset_renderer\<lparr>render_width := Some 640, num_strips := Some 6,
                      num_sub_strips := Some 2, strip_size := Some (real_of_int p / real_of_int 640)\<rparr>)"
  using calc_strip_size_smallest_multiple [of 640 6 2 108
      "unset_renderer\<lparr>render_width := Some 640, num_strips := Some 6, num_sub_strips := Some 2\<rparr>"]
  by simp

text \<open>
  Claim C5 says that a zero or negative \<^verbatim>\<open>num_strips\<close>, \<^verbatim>\<open>num_sub_strips\<close> or
  \<^verbatim>\<open>render_width\<close> is replaced by a default of at least \<open>1\<close> and that the
  calculation always terminates.  The replacement is \<^verbatim>\<open>value || 1\<close>, and a
  negative number is truthy: with \<open>render_width = 640\<close>, \<open>num_strips = - 6\<close> and
  \<open>num_sub_strips = 2\<close> the count used is \<open>- 6\<close>, the strip is
  \<open>\<lceil>640 / - 6\<rceil> = - 106\<close> pixels and \<^verbatim>\<open>strip_size\<close> becomes \<open>- 106 / 640\<close>.  And
  with \<open>render_width = 2 ^ 53 - 1\<close>, \<open>num_strips = 0\<close> and \<open>num_sub_strips = - 3\<close> the
  count is read as \<open>1\<close> and the loop never exits, because the increment stops
  at \<open>2 ^ 53\<close>, which is not a multiple of \<open>3\<close>.
\<close>

theorem negative_count_not_coerced:
  "\<not> 1 \<le> or_one (Some (- 6))
   \<and> calc_strip_size
        (unset_renderer\<lparr>render_width := Some 640, num_strips := Some (- 6), num_sub_strips := Some 2\<rparr>)
      = Returns (unset_renderer\<lparr>render_width := Some 640, num_strips := Some (- 6),
                   num_sub_strips := Some 2, strip_size := Some (- (53 / 320))\<rparr>)
   \<and> calc_strip_size
        (unset_renderer\<lparr>render_width := Some (2 ^ 53 - 1), num_strips := Some 0,
           num_sub_strips := Some (- 3)\<rparr>) = Diverges"
proof -
  have 1: "\<not> 1 \<le> or_one (Some (- 6))" by (simp add: or_one_def)
  have "calc_strip_size_pixels (Some 640) (Some (- 6)) (Some 2) = Some (- 106)"
    by (subst calc_strip_size_pixels_eq) (simp_all add: or_one_def ceil_div_eq_div)
  then have 2: "calc_strip_size
        (unset_renderer\<lparr>render_width := Some 640, num_strips := Some (- 6), num_sub_strips := Some 2\<rparr>)
      = Returns (unset_renderer\<lparr>render_width := Some 640, num_strips := Some (- 6),
                   num_sub_strips := Some 2, strip_size := Some (- (53 / 320))\<rparr>)"
    by (simp add: calc_strip_size_def or_one_def unset_renderer_def)
  have a: "js_rem (2 ^ 53 - 1) (- 3) \<noteq> Some 0"
    by (simp add: js_rem_Some_0)
  have b: "js_incr (2 ^ 53 - 1) = 2 ^ 53"
    using js_incr_exact [of "2 ^ 53 - 1"] by simp
  have c: "calc_strip_size_loop (- 3) (2 ^ 53) = None"
    by (rule calc_strip_size_loop_stuck) simp
  have "calc_strip_size_loop (- 3) (2 ^ 53 - 1) = calc_strip_size_loop (- 3) (js_incr (2 ^ 53 - 1))"
    using a by (subst calc_strip_size_loop.simps) simp
  then have d: "calc_strip_size_loop (- 3) (2 ^ 53 - 1) = None"
    by (simp only: b c)
  have "ceil_div (2 ^ 53 - 1) 1 = 2 ^ 53 - 1"
    by (simp add: ceil_div_eq_div)
  then have "calc_strip_size_pixels (Some (2 ^ 53 - 1)) (Some 0) (Some (- 3)) = None"
    using d by (simp add: calc_strip_size_pixels_def or_one_def)
  then have 3: "calc_strip_size
        (unset_renderer\<lparr>render_width := Some (2 ^ 53 - 1), num_strips := Some 0,
           num_sub_strips := Some (- 3)\<rparr>) = Diverges"
    by (simp add: calc_strip_size_def unset_renderer_def)
  from 1 2 3 show ?thesis by blast
qed

text \<open>
  Claim C5, amended.  A field that is unset or zero is read as \<open>1\<close>; every other
  value, a negative one too, is used as it is.  For every configuration of
  integer or unset fields in which, with the values so read, \<open>render_width\<close> is
  at most \<open>2 ^ 53\<close> in absolute value and some multiple \<open>m\<close> of \<open>num_sub_strips\<close>
  that is at least \<open>render_width / num_strips\<close> is at most \<open>2 ^ 53\<close>,
  \<^verbatim>\<open>_calc_strip_size\<close> returns: it does not throw and its loop exits.
  \<^verbatim>\<open>strip_size_pixels\<close> is then the smallest integer that is at least
  \<open>render_width / num_strips\<close> and a multiple of \<open>num_sub_strips\<close>, and
  \<^verbatim>\<open>strip_size\<close> is set to \<open>strip_size_pixels / render_width\<close>.
\<close>

theorem calc_strip_size_returns:
  assumes "\<bar>or_one (render_width r)\<bar> \<le> 2 ^ 53"
    and "or_one (num_sub_strips r) dvd m"
    and "real_of_int (or_one (render_width r)) / real_of_int (or_one (num_strips r)) \<le> real_of_int m"
    and "m \<le> 2 ^ 53"
  shows "\<exists>p. calc_strip_size r =
          Returns (r\<lparr>strip_size := Some (real_of_int p / real_of_int (or_one (render_width r)))\<rparr>)
     \<and> calc_strip_size_pixels (render_width r) (num_strips r) (num_sub_strips r) = Some p
     \<and> or_one (num_sub_strips r) dvd p
     \<and> real_of_int (or_one (render_width r)) / real_of_int (or_one (num_strips r)) \<le> real_of_int p
     \<and> (\<forall>q. or_one (num_sub_strips r) dvd q
            \<and> real_of_int (or_one (render_width r)) / real_of_int (or_one (num_strips r)) \<le> real_of_int q
            \<longrightarrow> p \<le> q)
     \<and> (\<forall>v. v = None \<or> v = Some 0 \<longrightarrow> or_one v = 1)
     \<and> (\<forall>n. n \<noteq> 0 \<longrightarrow> or_one (Some n) = n)"
proof -
  define c where "c = ceil_div (or_one (render_width r)) (or_one (num_strips r))"
  define k where "k = \<bar>or_one (num_sub_strips r)\<bar>"
  define p where "p = c + (- c) mod k"
  have kpos: "0 < k" unfolding k_def using or_one_nonzero [of "num_sub_strips r"] by simp
  have "\<bar>c\<bar> \<le> \<bar>or_one (render_width r)\<bar>"
    unfolding c_def by (rule ceil_div_abs_le [OF or_one_nonzero])
  with assms(1) have b1: "- (2 ^ 53) \<le> c" by simp
  have km: "k dvd m" unfolding k_def using assms(2) by simp
  have cm: "c \<le> m" using assms(3) unfolding c_def ceil_div_def by (simp add: ceiling_le_iff)
  have "p \<le> m" unfolding p_def using km cm by (rule next_multiple(4) [OF kpos])
  with assms(4) have b2: "c + (- c) mod k \<le> 2 ^ 53" unfolding p_def by simp
  have px: "calc_strip_size_pixels (render_width r) (num_strips r) (num_sub_strips r) = Some p"
    using calc_strip_size_pixels_eq [of "render_width r" "num_strips r" "num_sub_strips r"] b1 b2
    by (simp add: p_def c_def k_def)
  have cs: "calc_strip_size r =
      Returns (r\<lparr>strip_size := Some (real_of_int p / real_of_int (or_one (render_width r)))\<rparr>)"
    using px by (simp add: calc_strip_size_def)
  have "k dvd p" unfolding p_def by (rule next_multiple(1) [OF kpos])
  then have d: "or_one (num_sub_strips r) dvd p" unfolding k_def by simp
  have c_ge: "real_of_int (or_one (render_width r)) / real_of_int (or_one (num_strips r)) \<le> real_of_int c"
    unfolding c_def ceil_div_def by (rule le_of_int_ceiling)
  have lo: "c \<le> p" unfolding p_def by (rule next_multiple(2) [OF kpos])
  have ge: "real_of_int (or_one (render_width r)) / real_of_int (or_one (num_strips r)) \<le> real_of_int p"
    using c_ge lo by (meson of_int_le_iff order_trans)
  have least: "\<forall>q. or_one (num_sub_strips r) dvd q
            \<and> real_of_int (or_one (render_width r)) / real_of_int (or_one (num_strips r)) \<le> real_of_int q
            \<longrightarrow> p \<le> q"
  proof (intro allI impI, elim conjE)
    fix q
    assume q: "or_one (num_sub_strips r) dvd q"
      "real_of_int (or_one (render_width r)) / real_of_int (or_one (num_strips r)) \<le> real_of_int q"
    from q(1) have "k dvd q" unfolding k_def by simp
    moreover from q(2) have "c \<le> q" unfolding c_def ceil_div_def by (simp add: ceiling_le_iff)
    ultimately show "p \<le> q" unfolding p_def by (rule next_multiple(4) [OF kpos])
  qed
  have o1: "\<forall>v. v = None \<or> v = Some 0 \<longrightarrow> or_one v = 1"
    by (auto simp: or_one_def)
  have o2: "\<forall>n. n \<noteq> 0 \<longrightarrow> or_one (Some n) = n"
    by (simp add: or_one_def)
  from cs px d ge least o1 o2 show ?thesis by blast
qed

text \<open>The amended claim where all three fields are zero, and the three ways
  \<^verbatim>\<open>|| 1\<close> can go.\<close>

theorem calc_strip_size_returns_witness:
  "calc_strip_size
     (unset_renderer\<lparr>render_width := Some 0, num_strips := Some 0, num_sub_strips := Some 0\<rparr>)
   = Returns (unset_renderer\<lparr>render_width := Some 0, num_strips := Some 0,
                num_sub_strips := Some 0, strip_size := Some 1\<rparr>)
   \<and> or_one None = 1 \<and> or_one (Some 0) = 1 \<and> or_one (Some (- 6)) = - 6"
proof -
  let ?r = "unset_renderer\<lparr>render_width := Some 0, num_strips := Some 0, num_sub_strips := Some 0\<rparr>"
  have h: "\<bar>or_one (render_width ?r)\<bar> \<le> 2 ^ 53" "or_one (num_sub_strips ?r) dvd 1"
    "real_of_int (or_one (render_width ?r)) / real_of_int (or_one (num_strips ?r)) \<le> real_of_int 1"
    "(1::int) \<le> 2 ^ 53"
    by (simp_all add: or_one_def)
  from calc_strip_size_returns [OF h] obtain p where
    cs: "calc_strip_size ?r = Returns (?r\<lparr>strip_size := Some (real_of_int p / real_of_int (or_one (render_width ?r)))\<rparr>)"
    and d: "or_one (num_sub_strips ?r) dvd p"
    and ge: "real_of_int (or_one (render_width ?r)) / real_of_int (or_one (num_strips ?r)) \<le> real_of_int p"
    and least: "\<forall>q. or_one (num_sub_strips ?r) dvd q
            \<and> real_of_int (or_one (render_width ?r)) / real_of_int (or_one (num_strips ?r)) \<le> real_of_int q
            \<longrightarrow> p \<le> q"
    and o1: "\<forall>v. v = None \<or> v = Some 0 \<longrightarrow> or_one v = 1"
    and o2: "\<forall>n. n \<noteq> 0 \<longrightarrow> or_one (Some n) = n"
    by blast
  have o: "or_one None = 1" "or_one (Some 0) = 1" "or_one (Some (- 6)) = - 6"
    using o1 o2 by simp_all
  have "1 \<le> p" using ge by (simp add: o)
  moreover have "p \<le> 1" using least [rule_format, of 1] by (simp add: o)
  ultimately have "p = 1" by simp
  with cs o show ?thesis by simp
qed





lemma calc_strip_size_eq:
  assumes "- (2 ^ 53) \<le> ceil_div (or_one (render_width r)) (or_one (num_strips r))"
    and "ceil_div (or_one (render_width r)) (or_one (num_strips r))
           + (- ceil_div (or_one (render_width r)) (or_one (num_strips r)))
               mod \<bar>or_one (num_sub_strips r)\<bar> \<le> 2 ^ 53"
  shows "calc_strip_size r =
     Returns (r\<lparr>strip_size := Some (real_of_int
        (ceil_div (or_one (render_width r)) (or_one (num_strips r))
          + (- ceil_div (or_one (render_width r)) (or_one (num_strips r)))
              mod \<bar>or_one (num_sub_strips r)\<bar>)
        / real_of_int (or_one (render_width r)))\<rparr>)"
  by (simp add: calc_strip_size_def calc_strip_size_pixels_eq [OF assms])

section \<open>Claims about the copy\<close>

text \<open>
  Claim C4.  On a renderer whose stereogram texture has the render size,
  \<^verbatim>\<open>_copy_strip_to_stereo_texture(x, w)\<close> with \<open>0 \<le> x \<le> render_width\<close> makes one
  call, \<^verbatim>\<open>copyTexSubImage2D\<close> at column \<open>x\<close> with the width \<open>min w (render_width - x)\<close>.
  The call overwrites the columns from \<open>x\<close> up to, not including,
  \<open>x + min w (render_width - x)\<close>, all of them inside \<open>[0, render_width)\<close>; for a
  width \<open>w \<ge> 0\<close> these are exactly \<open>min w (render_width - x)\<close> columns (a negative
  width overwrites none).  The method has no \<^verbatim>\<open>throw\<close> and WebGL reports a bad
  argument through its error flag, so the call list is all that happens.
\<close>

theorem copy_strip_clamped:
  assumes "render_width r = Some rw" and "0 \<le> x" and "x \<le> rw"
    and "render_height r = Some h" and "1 \<le> h"
    and "stereo_texture r = Some t" and "textures e t = Some (Some rw, Some h)"
  shows "\<exists>c. copy_strip_to_stereo_texture (Some x) (Some w) r = [c]
           \<and> c = CopyTexSubImage2D (Some t) (Some x) (Some (min w (rw - x))) (Some h)
           \<and> copied_columns e c = {x ..< x + min w (rw - x)}
           \<and> copied_columns e c \<subseteq> {0 ..< rw}
           \<and> (0 \<le> w \<longrightarrow> int (card (copied_columns e c)) = min w (rw - x))"
proof -
  let ?c = "CopyTexSubImage2D (Some t) (Some x) (Some (min w (rw - x))) (Some h)"
  have 1: "copy_strip_to_stereo_texture (Some x) (Some w) r = [?c]"
    using assms by (simp add: copy_strip_to_stereo_texture_def js_less_def int_sub_def min_def)
  have 2: "copied_columns e ?c = {x ..< x + min w (rw - x)}"
    using assms by (auto simp: copied_columns_def gl_int_def)
  have 3: "copied_columns e ?c \<subseteq> {0 ..< rw}"
    unfolding 2 using assms(2,3) by auto
  have 4: "0 \<le> w \<longrightarrow> int (card (copied_columns e ?c)) = min w (rw - x)"
    unfolding 2 using assms(3) by simp
  from 1 2 3 4 show ?thesis by blast
qed

text \<open>The last sub-strip of a renderer \<open>640\<close> pixels wide: the copy asked for is
  \<open>56\<close> columns at column \<open>594\<close>, and \<open>46\<close> columns are written.\<close>

theorem copy_strip_clamped_witness:
  "copied_columns
     \<lparr>global_gl = True, shaders_compile = True, next_texture = 1,
        textures = [0 \<mapsto> (Some 640, Some 480)], gl_log = []\<rparr>
     (hd (copy_strip_to_stereo_texture (Some 594) (Some 56)
        (unset_renderer\<lparr>render_width := Some 640, render_height := Some 480,
           stereo_texture := Some 0\<rparr>)))
   = {594 ..< 640}"
proof -
  let ?e = "\<lparr>global_gl = True, shaders_compile = True, next_texture = 1,
        textures = [0 \<mapsto> (Some 640, Some 480)], gl_log = []\<rparr>"
  let ?r = "unset_renderer\<lparr>render_width := Some 640, render_height := Some 480,
           stereo_texture := Some 0\<rparr>"
  have h: "render_width ?r = Some 640" "(0::int) \<le> 594" "(594::int) \<le> 640"
    "render_height ?r = Some 480" "(1::int) \<le> 480" "stereo_texture ?r = Some 0"
    "textures ?e 0 = Some (Some 640, Some 480)"
    by simp_all
  from copy_strip_clamped [OF h, of 56] show ?thesis by auto
qed

section \<open>Claims about the configuration\<close>

text \<open>
  Claim C9 says that \<^verbatim>\<open>resize\<close> recomputes \<^verbatim>\<open>strip_size\<close> for the new width.
  \<^verbatim>\<open>resize\<close> does not call \<^verbatim>\<open>_calc_strip_size\<close>.  A renderer constructed at
  \<open>640 \<times> 480\<close> has \<^verbatim>\<open>strip_size\<close> \<open>27/160\<close>; after \<^verbatim>\<open>resize(1000, 480)\<close> the sizes
  are the new ones, the old texture is deleted and a new one of \<open>1000 \<times> 480\<close> is
  created, but \<^verbatim>\<open>strip_size\<close> is still \<open>27/160\<close>, which is \<open>168.75\<close> pixels of the
  new width; \<^verbatim>\<open>_calc_strip_size\<close> would give \<open>21/125\<close>, that is \<open>168\<close> pixels.
\<close>

theorem resize_keeps_strip_size:
  "Renderer (Some 640) (Some 480)
     \<lparr>global_gl = True, shaders_compile = True, next_texture = 0,
        textures = Map.empty, gl_log = []\<rparr>
   = Returns
      (\<lparr>render_width = Some 640, render_height = Some 480, stereo_texture = Some 0,
          num_strips = Some 6, num_sub_strips = Some 2, strip_size = Some (27 / 160),
          depth_factor = Some (1 / 75), background_mode = Some BG_NOISE,
          noise_seed = Some 0, tile_texture = None, bg_scroll_x = Some 0,
          bg_scroll_y = Some 0\<rparr>,
       \<lparr>global_gl = True, shaders_compile = True, next_texture = 1,
          textures = [0 \<mapsto> (Some 640, Some 480)],
          gl_log = [CreateTexture 0 (Some 640) (Some 480)]\<rparr>)
   \<and> resize (Some 1000) (Some 480)
      (\<lparr>render_width = Some 640, render_height = Some 480, stereo_texture = Some 0,
          num_strips = Some 6, num_sub_strips = Some 2, strip_size = Some (27 / 160),
          depth_factor = Some (1 / 75), background_mode = Some BG_NOISE,
          noise_seed = Some 0, tile_texture = None, bg_scroll_x = Some 0,
          bg_scroll_y = Some 0\<rparr>,
       \<lparr>global_gl = True, shaders_compile = True, next_texture = 1,
          textures = [0 \<mapsto> (Some 640, Some 480)],
          gl_log = [CreateTexture 0 (Some 640) (Some 480)]\<rparr>)
   = Returns
      (\<lparr>render_width = Some 1000, render_height = Some 480, stereo_texture = Some 1,
          num_strips = Some 6, num_sub_strips = Some 2, strip_size = Some (27 / 160),
          depth_factor = Some (1 / 75), background_mode = Some BG_NOISE,
          noise_seed = Some 0, tile_texture = None, bg_scroll_x = Some 0,
          bg_scroll_y = Some 0\<rparr>,
       \<lparr>global_gl = True, shaders_compile = True, next_texture = 2,
          textures = [1 \<mapsto> (Some 1000, Some 480)],
          gl_log = [CreateTexture 0 (Some 640) (Some 480), DeleteTexture 0,
                    CreateTexture 1 (Some 1000) (Some 480)]\<rparr>)
   \<and> calc_strip_size
      \<lparr>render_width = Some 1000, render_height = Some 480, stereo_texture = Some 1,
          num_strips = Some 6, num_sub_strips = Some 2, strip_size = Some (27 / 160),
          depth_factor = Some (1 / 75), background_mode = Some BG_NOISE,
          noise_seed = Some 0, tile_texture = None, bg_scroll_x = Some 0,
          bg_scroll_y = Some 0\<rparr>
   = Returns
      \<lparr>render_width = Some 1000, render_height = Some 480, stereo_texture = Some 1,
          num_strips = Some 6, num_sub_strips = Some 2, strip_size = Some (21 / 125),
          depth_factor = Some (1 / 75), background_mode = Some BG_NOISE,
          noise_seed = Some 0, tile_texture = None, bg_scroll_x = Some 0,
          bg_scroll_y = Some 0\<rparr>"
  by (simp add: Renderer_def and_then_def resize_def create_texture_def deleteTexture_def
      on_renderer_def set_field_def create_shaders_def unset_renderer_def
      setNumStrips_def setNumSubStrips_def setDepthFactor_def setBackgroundMode_def
      setNoiseSeed_def setBackgroundTileTexture_def setBackgroundTileScroll_def
      calc_strip_size_eq or_one_def ceil_div_eq_div js_less_def js_eq_int_def
      num_ceil_def num_div_def num_mul_def num_of_def BG_NOISE_def BG_TILE_def Let_def)

lemma setNumStrips_cases:
  "setNumStrips n r = Diverges
   \<or> (\<exists>n' s. setNumStrips n r = Returns (r\<lparr>num_strips := n', strip_size := s\<rparr>))"
proof (cases "js_less n (Some 0)")
  case True
  let ?n' = "num_ceil (num_div (num_mul (Some 8) (num_of (render_width r))) (Some 1000))"
  from calc_strip_size_cases [of "r\<lparr>num_strips := ?n'\<rparr>"] True show ?thesis
    by (auto simp: setNumStrips_def Let_def)
next
  case False
  from calc_strip_size_cases [of "r\<lparr>num_strips := n\<rparr>"] False show ?thesis
    by (auto simp: setNumStrips_def Let_def)
qed

lemma setNumSubStrips_cases:
  "setNumSubStrips n r = Diverges
   \<or> (\<exists>s. setNumSubStrips n r = Returns (r\<lparr>num_sub_strips := n, strip_size := s\<rparr>))"
  using calc_strip_size_cases [of "r\<lparr>num_sub_strips := n\<rparr>"]
  by (auto simp: setNumSubStrips_def)

lemma resize_background:
  "resize width height w = Returns w' \<or> resize width height w = Throws err w' \<Longrightarrow>
   background_mode (fst w') = background_mode (fst w)"
  by (auto simp: resize_def Let_def create_texture_def split: option.splits if_splits)

lemma setBackgroundMode_two:
  "background_mode (setBackgroundMode mode r) = Some BG_NOISE
   \<or> background_mode (setBackgroundMode mode r) = Some BG_TILE"
  by (simp add: setBackgroundMode_def)

lemma apply_operation_background:
  assumes "apply_operation op w = Returns w' \<or> apply_operation op w = Throws err w'"
    and "background_mode (fst w) = Some BG_NOISE \<or> background_mode (fst w) = Some BG_TILE"
  shows "background_mode (fst w') = Some BG_NOISE \<or> background_mode (fst w') = Some BG_TILE"
proof (cases op)
  case (Resize width height)
  with assms resize_background [of width height w w' err] show ?thesis by simp
next
  case (SetNumStrips n)
  from setNumStrips_cases [of n "fst w"] show ?thesis
  proof
    assume "setNumStrips n (fst w) = Diverges"
    then have "apply_operation op w = Diverges"
      by (simp add: SetNumStrips on_renderer_def)
    with assms(1) show ?thesis by simp
  next
    assume "\<exists>n' s. setNumStrips n (fst w) = Returns ((fst w)\<lparr>num_strips := n', strip_size := s\<rparr>)"
    then obtain n' s where
      "setNumStrips n (fst w) = Returns ((fst w)\<lparr>num_strips := n', strip_size := s\<rparr>)"
      by blast
    then have "apply_operation op w = Returns ((fst w)\<lparr>num_strips := n', strip_size := s\<rparr>, snd w)"
      by (simp add: SetNumStrips on_renderer_def)
    with assms(1) have "fst w' = (fst w)\<lparr>num_strips := n', strip_size := s\<rparr>" by auto
    with assms(2) show ?thesis by simp
  qed
next
  case (SetNumSubStrips n)
  from setNumSubStrips_cases [of n "fst w"] show ?thesis
  proof
    assume "setNumSubStrips n (fst w) = Diverges"
    then have "apply_operation op w = Diverges"
      by (simp add: SetNumSubStrips on_renderer_def)
    with assms(1) show ?thesis by simp
  next
    assume "\<exists>s. setNumSubStrips n (fst w) = Returns ((fst w)\<lparr>num_sub_strips := n, strip_size := s\<rparr>)"
    then obtain s where
      "setNumSubStrips n (fst w) = Returns ((fst w)\<lparr>num_sub_strips := n, strip_size := s\<rparr>)"
      by blast
    then have "apply_operation op w = Returns ((fst w)\<lparr>num_sub_strips := n, strip_size := s\<rparr>, snd w)"
      by (simp add: SetNumSubStrips on_renderer_def)
    with assms(1) have "fst w' = (fst w)\<lparr>num_sub_strips := n, strip_size := s\<rparr>" by auto
    with assms(2) show ?thesis by simp
  qed
next
  case (SetBackgroundMode mode)
  with assms(1) setBackgroundMode_two [of mode "fst w"] show ?thesis
    by (auto simp: set_field_def)
next
  case (SetDepthFactor f)
  with assms show ?thesis by (auto simp: set_field_def setDepthFactor_def)
next
  case (SetBackgroundTileTexture t)
  with assms show ?thesis by (auto simp: set_field_def setBackgroundTileTexture_def)
next
  case (SetBackgroundTileScroll x y)
  with assms show ?thesis by (auto simp: set_field_def setBackgroundTileScroll_def)
next
  case (SetNoiseSeed seed)
  with assms show ?thesis by (auto simp: set_field_def setNoiseSeed_def)
next
  case (Render depth_map)
  with assms show ?thesis by (auto split: option.splits)
qed

lemma run_background:
  "run ops w = Some w' \<Longrightarrow>
   background_mode (fst w) = Some BG_NOISE \<or> background_mode (fst w) = Some BG_TILE \<Longrightarrow>
   background_mode (fst w') = Some BG_NOISE \<or> background_mode (fst w') = Some BG_TILE"
proof (induction ops arbitrary: w)
  case Nil
  then show ?case by simp
next
  case (Cons op ops)
  show ?case
  proof (cases "apply_operation op w")
    case (Returns w1)
    with Cons.prems(1) have "run ops w1 = Some w'" by simp
    moreover have "background_mode (fst w1) = Some BG_NOISE \<or> background_mode (fst w1) = Some BG_TILE"
      using apply_operation_background [of op w w1] Returns Cons.prems(2) by simp
    ultimately show ?thesis by (rule Cons.IH)
  next
    case (Throws err w1)
    with Cons.prems(1) have "run ops w1 = Some w'" by simp
    moreover have "background_mode (fst w1) = Some BG_NOISE \<or> background_mode (fst w1) = Some BG_TILE"
      using apply_operation_background [of op w w1 err] Throws Cons.prems(2) by simp
    ultimately show ?thesis by (rule Cons.IH)
  next
    case Diverges
    with Cons.prems(1) show ?thesis by simp
  qed
qed

lemma Renderer_background:
  assumes "Renderer width height e = Returns w"
  shows "background_mode (fst w) = Some BG_NOISE"
proof -
  obtain w1 where 1: "resize width height (unset_renderer, e) = Returns w1"
    using assms by (cases "resize width height (unset_renderer, e)") (simp_all add: Renderer_def and_then_def)
  have r1: "Renderer width height e =
      and_then (on_renderer (setNumStrips (Some (- 1))) w1) (\<lambda>w.
      and_then (on_renderer (setNumSubStrips (Some 2)) w) (\<lambda>w.
      and_then (set_field (setDepthFactor (Some (1 / 75))) w) (\<lambda>w.
      and_then (set_field (setBackgroundMode (JNumber BG_NOISE)) w) (\<lambda>w.
      and_then (set_field (setNoiseSeed (Some 0)) w) (\<lambda>w.
      and_then (set_field (setBackgroundTileTexture None) w) (\<lambda>w.
      and_then (set_field (setBackgroundTileScroll (Some 0) (Some 0)) w) (\<lambda>w.
      and_then (set_field (\<lambda>r. r\<lparr>background_mode := Some BG_NOISE\<rparr>) w)
        create_shaders)))))))"
    by (simp add: Renderer_def 1 and_then_def)
  have "setNumStrips (Some (- 1)) (fst w1) \<noteq> Diverges"
    using assms unfolding r1 by (auto simp: and_then_def on_renderer_def)
  then obtain n' s where 2: "setNumStrips (Some (- 1)) (fst w1) = Returns ((fst w1)\<lparr>num_strips := n', strip_size := s\<rparr>)"
    using setNumStrips_cases [of "Some (- 1)" "fst w1"] by blast
  have "setNumSubStrips (Some 2) ((fst w1)\<lparr>num_strips := n', strip_size := s\<rparr>) \<noteq> Diverges"
    using assms unfolding r1 by (auto simp: and_then_def on_renderer_def 2)
  then obtain s' where 3: "setNumSubStrips (Some 2) ((fst w1)\<lparr>num_strips := n', strip_size := s\<rparr>)
      = Returns ((fst w1)\<lparr>num_strips := n', strip_size := s, num_sub_strips := Some 2, strip_size := s'\<rparr>)"
    using setNumSubStrips_cases [of "Some 2" "(fst w1)\<lparr>num_strips := n', strip_size := s\<rparr>"] by auto
  have "Renderer width height e =
      create_shaders ((fst w1)\<lparr>num_strips := n', num_sub_strips := Some 2, strip_size := s',
         depth_factor := Some (1 / 75), noise_seed := Some 0, tile_texture := None,
         bg_scroll_x := Some 0, bg_scroll_y := Some 0, background_mode := Some BG_NOISE\<rparr>, snd w1)"
    by (simp add: Renderer_def and_then_def 1 2 3 on_renderer_def set_field_def
        setDepthFactor_def setBackgroundMode_def setNoiseSeed_def setBackgroundTileTexture_def
        setBackgroundTileScroll_def)
  with assms show ?thesis
    by (auto simp: create_shaders_def split: if_splits)
qed

text \<open>
  Claim C10.  \<^verbatim>\<open>setBackgroundMode(mode)\<close> stores \<^verbatim>\<open>BG_NOISE\<close> when
  \<^verbatim>\<open>mode == BG_NOISE\<close> and \<^verbatim>\<open>BG_TILE\<close> otherwise, \<^verbatim>\<open>BG_TILE\<close> in particular for
  \<^verbatim>\<open>undefined\<close>, the value of the missing \<^verbatim>\<open>Stereogram.BG_SCROLL\<close>.  After the
  constructor and any sequence of method calls, \<^verbatim>\<open>background_mode\<close> is one of the
  two constants.
\<close>

theorem background_mode_two_valued:
  "background_mode (setBackgroundMode mode r)
     = Some (if js_eq_int mode BG_NOISE then BG_NOISE else BG_TILE)
   \<and> background_mode (setBackgroundMode JUndefined r) = Some BG_TILE
   \<and> (Renderer width height e = Returns w \<and> run ops w = Some w' \<longrightarrow>
        background_mode (fst w') = Some BG_NOISE \<or> background_mode (fst w') = Some BG_TILE)"
proof -
  have 1: "background_mode (setBackgroundMode mode r)
     = Some (if js_eq_int mode BG_NOISE then BG_NOISE else BG_TILE)"
    by (simp add: setBackgroundMode_def)
  have 2: "background_mode (setBackgroundMode JUndefined r) = Some BG_TILE"
    by (simp add: setBackgroundMode_def js_eq_int_def)
  have 3: "Renderer width height e = Returns w \<and> run ops w = Some w' \<longrightarrow>
        background_mode (fst w') = Some BG_NOISE \<or> background_mode (fst w') = Some BG_TILE"
    using run_background [of ops w w'] Renderer_background [of width height e w] by blast
  from 1 2 3 show ?thesis by blast
qed

lemma Renderer_640:
  "Renderer (Some 640) (Some 480)
     \<lparr>global_gl = True, shaders_compile = True, next_texture = 0,
        textures = Map.empty, gl_log = []\<rparr>
   = Returns
      (\<lparr>render_width = Some 640, render_height = Some 480, stereo_texture = Some 0,
          num_strips = Some 6, num_sub_strips = Some 2, strip_size = Some (27 / 160),
          depth_factor = Some (1 / 75), background_mode = Some BG_NOISE,
          noise_seed = Some 0, tile_texture = None, bg_scroll_x = Some 0,
          bg_scroll_y = Some 0\<rparr>,
       \<lparr>global_gl = True, shaders_compile = True, next_texture = 1,
          textures = [0 \<mapsto> (Some 640, Some 480)],
          gl_log = [CreateTexture 0 (Some 640) (Some 480)]\<rparr>)"
  by (simp add: Renderer_def and_then_def resize_def create_texture_def
      on_renderer_def set_field_def create_shaders_def unset_renderer_def
      setNumStrips_def setNumSubStrips_def setDepthFactor_def setBackgroundMode_def
      setNoiseSeed_def setBackgroundTileTexture_def setBackgroundTileScroll_def
      calc_strip_size_eq or_one_def ceil_div_eq_div js_less_def js_eq_int_def
      num_ceil_def num_div_def num_mul_def num_of_def Let_def)

text \<open>A renderer constructed at \<open>640 \<times> 480\<close>, then \<^verbatim>\<open>setBackgroundMode(undefined)\<close>,
  \<^verbatim>\<open>setNumSubStrips(1)\<close> and \<^verbatim>\<open>setBackgroundMode(false)\<close>.\<close>

theorem background_mode_two_valued_witness:
  "\<exists>w w'. Renderer (Some 640) (Some 480)
             \<lparr>global_gl = True, shaders_compile = True, next_texture = 0,
                textures = Map.empty, gl_log = []\<rparr> = Returns w
     \<and> run [SetBackgroundMode JUndefined, SetNumSubStrips (Some 1), SetBackgroundMode (JBool False)] w
           = Some w'
     \<and> background_mode (fst w') = Some BG_NOISE"
proof -
  let ?e = "\<lparr>global_gl = True, shaders_compile = True, next_texture = 0,
                textures = Map.empty, gl_log = []\<rparr>"
  let ?ops = "[SetBackgroundMode JUndefined, SetNumSubStrips (Some 1), SetBackgroundMode (JBool False)]"
  obtain w where w: "Renderer (Some 640) (Some 480) ?e = Returns w"
    using Renderer_640 by blast
  have "calc_strip_size_pixels (Some 640) (Some 6) (Some 1) = Some 107"
    by (subst calc_strip_size_pixels_eq) (simp_all add: or_one_def ceil_div_eq_div)
  then have "\<exists>s. setNumSubStrips (Some 1) (setBackgroundMode JUndefined (fst w))
              = Returns ((setBackgroundMode JUndefined (fst w))\<lparr>num_sub_strips := Some 1, strip_size := s\<rparr>)"
    using w unfolding Renderer_640
    by (auto simp: setNumSubStrips_def calc_strip_size_def setBackgroundMode_def)
  then obtain s where "setNumSubStrips (Some 1) (setBackgroundMode JUndefined (fst w))
              = Returns ((setBackgroundMode JUndefined (fst w))\<lparr>num_sub_strips := Some 1, strip_size := s\<rparr>)"
    by blast
  then obtain w' where r: "run ?ops w = Some w'"
    and b: "background_mode (fst w') = background_mode (setBackgroundMode (JBool False) (fst w))"
    by (simp add: set_field_def on_renderer_def setBackgroundMode_def)
  from background_mode_two_valued [of "JBool False" "fst w" "Some 640" "Some 480" ?e w ?ops w']
  have "background_mode (setBackgroundMode (JBool False) (fst w))
     = Some (if js_eq_int (JBool False) BG_NOISE then BG_NOISE else BG_TILE)"
    by blast
  with b have "background_mode (fst w') = Some BG_NOISE"
    by (simp add: js_eq_int_def BG_NOISE_def)
  with w r show ?thesis by blast
qed

section \<open>Finite results\<close>

lemma pow2_strict_mono: "a < b \<Longrightarrow> pow2 a < pow2 b"
proof -
  assume "a < b"
  then have "a + 1 \<le> b" by simp
  then have "pow2 (a + 1) \<le> pow2 b" by (rule pow2_mono)
  moreover have "pow2 (a + 1) = pow2 a * 2" using pow2_add [of a 1] by (simp add: pow2_def)
  ultimately show ?thesis using pow2_pos [of a] by linarith
qed

lemma pow2_of_nat: "pow2 (int n) = 2 ^ n"
  by (simp add: pow2_def)

lemma rnd_abs_le:
  assumes "\<bar>x\<bar> \<le> pow2 k" and "emin - (p - 1) \<le> k" and "1 \<le> p"
  shows "\<bar>rnd p emin x\<bar> \<le> pow2 k"
proof -
  have rep: "representable p emin (pow2 k)" using assms(2) by (rule representable_pow2)
  have "rnd p emin x \<le> pow2 k"
    using rep assms(3) by (rule rnd_mono_le) (use assms(1) in linarith)
  moreover have "- pow2 k \<le> rnd p emin x"
    using representable_minus [OF rep] assms(3) by (rule rnd_mono_ge) (use assms(1) in linarith)
  ultimately show ?thesis by (simp add: abs_le_iff)
qed

lemma dbl_bound:
  assumes "\<bar>x\<bar> \<le> 2 ^ n" and "n < 1024"
  shows "dbl x = Some (round_double x)" and "\<bar>round_double x\<bar> \<le> 2 ^ n"
proof -
  have "\<bar>x\<bar> \<le> pow2 (int n)" using assms(1) by (simp add: pow2_of_nat)
  then have "\<bar>rnd 53 (- 1022) x\<bar> \<le> pow2 (int n)" by (rule rnd_abs_le) simp_all
  then show b: "\<bar>round_double x\<bar> \<le> 2 ^ n" by (simp add: round_double_def pow2_of_nat)
  have "pow2 (int n) < pow2 1024" using assms(2) by (intro pow2_strict_mono) simp
  with b show "dbl x = Some (round_double x)" by (simp add: dbl_def pow2_of_nat)
qed

lemma f32_bound:
  assumes "\<bar>x\<bar> \<le> 2 ^ n" and "n < 128"
  shows "f32 x = Some (round_single x)" and "\<bar>round_single x\<bar> \<le> 2 ^ n"
proof -
  have "\<bar>x\<bar> \<le> pow2 (int n)" using assms(1) by (simp add: pow2_of_nat)
  then have "\<bar>rnd 24 (- 126) x\<bar> \<le> pow2 (int n)" by (rule rnd_abs_le) simp_all
  then show b: "\<bar>round_single x\<bar> \<le> 2 ^ n" by (simp add: round_single_def pow2_of_nat)
  have "pow2 (int n) < pow2 128" using assms(2) by (intro pow2_strict_mono) simp
  with b show "f32 x = Some (round_single x)" by (simp add: f32_def pow2_of_nat)
qed

lemma round_double_0 [simp]: "round_double 0 = 0"
  by (simp add: round_double_def rnd_def)

lemma round_single_0 [simp]: "round_single 0 = 0"
  by (simp add: round_single_def rnd_def)

lemma round_double_1 [simp]: "round_double 1 = 1"
  using round_double_int [of 1] by simp

lemma round_single_int: "\<bar>k\<bar> \<le> 2 ^ 24 \<Longrightarrow> round_single (real_of_int k) = real_of_int k"
  unfolding round_single_def
  by (rule rnd_representable [OF representable_int]) simp_all

lemma round_single_1 [simp]: "round_single 1 = 1"
  using round_single_int [of 1] by simp

lemma dbl_0 [simp]: "dbl 0 = Some 0"
  by (simp add: dbl_def pow2_def)

lemma dbl_1 [simp]: "dbl 1 = Some 1"
  by (simp add: dbl_def pow2_def)

lemma f32_0 [simp]: "f32 0 = Some 0"
  by (simp add: f32_def pow2_def)

lemma f32_1 [simp]: "f32 1 = Some 1"
  by (simp add: f32_def pow2_def)

lemma round_double_ge_int:
  "\<bar>k\<bar> \<le> 2 ^ 53 \<Longrightarrow> real_of_int k \<le> x \<Longrightarrow> real_of_int k \<le> round_double x"
  unfolding round_double_def
  by (rule rnd_mono_ge [OF representable_int]) simp_all

lemma round_double_le_int:
  "\<bar>k\<bar> \<le> 2 ^ 53 \<Longrightarrow> x \<le> real_of_int k \<Longrightarrow> round_double x \<le> real_of_int k"
  unfolding round_double_def
  by (rule rnd_mono_le [OF representable_int]) simp_all

lemma round_single_ge_int:
  "\<bar>k\<bar> \<le> 2 ^ 24 \<Longrightarrow> real_of_int k \<le> x \<Longrightarrow> real_of_int k \<le> round_single x"
  unfolding round_single_def
  by (rule rnd_mono_ge [OF representable_int]) simp_all

lemma round_single_le_int:
  "\<bar>k\<bar> \<le> 2 ^ 24 \<Longrightarrow> x \<le> real_of_int k \<Longrightarrow> round_single x \<le> real_of_int k"
  unfolding round_single_def
  by (rule rnd_mono_le [OF representable_int]) simp_all

lemma dbl_int: "\<bar>k\<bar> \<le> 2 ^ 53 \<Longrightarrow> dbl (real_of_int k) = Some (real_of_int k)"
proof -
  assume k: "\<bar>k\<bar> \<le> 2 ^ 53"
  then have "\<bar>real_of_int k\<bar> \<le> 2 ^ 53"
    by (metis of_int_abs of_int_le_iff of_int_numeral of_int_power)
  then have "dbl (real_of_int k) = Some (round_double (real_of_int k))"
    by (rule dbl_bound) simp
  then show ?thesis using round_double_int [OF k] by simp
qed

section \<open>The calls of \<^verbatim>\<open>render\<close>\<close>

lemma sampler_of_framebuffer [simp]:
  "sampler_of e ext (st\<lparr>framebuffer := f\<rparr>) = sampler_of e ext st"
  by (rule ext) (simp add: sampler_of_def split: option.splits)

lemma reference_position_eq:
  "reference_position ssize =
     [f32_of (js_mul (Some 0) ssize), Some 0, Some 0,
      f32_of (js_mul (Some 1) ssize), Some 0, Some 0,
      f32_of (js_mul (Some 1) ssize), Some 1, Some 0,
      f32_of (js_mul (Some 1) ssize), Some 1, Some 0,
      f32_of (js_mul (Some 0) ssize), Some 1, Some 0,
      f32_of (js_mul (Some 0) ssize), Some 0, Some 0]"
  by (simp add: reference_position_def quad_vtx_def upt_rec f32_of_def)

lemma reference_uv_eq:
  "reference_uv sx sy ssize =
     [f32_of (js_add sx (Some 0)), f32_of (js_add sy (js_div (Some 0) ssize)),
      f32_of (js_add sx (Some 1)), f32_of (js_add sy (js_div (Some 0) ssize)),
      f32_of (js_add sx (Some 1)), f32_of (js_add sy (js_div (Some 1) ssize)),
      f32_of (js_add sx (Some 1)), f32_of (js_add sy (js_div (Some 1) ssize)),
      f32_of (js_add sx (Some 0)), f32_of (js_add sy (js_div (Some 1) ssize)),
      f32_of (js_add sx (Some 0)), f32_of (js_add sy (js_div (Some 0) ssize))]"
  by (simp add: reference_uv_def quad_uv_def upt_rec)

lemma stereo_position_eq:
  "stereo_position num ssize =
     [f32_of (js_mul (js_add (Some 0) (Some (real_of_int num))) ssize), Some 0, Some 0,
      f32_of (js_mul (js_add (Some 1) (Some (real_of_int num))) ssize), Some 0, Some 0,
      f32_of (js_mul (js_add (Some 1) (Some (real_of_int num))) ssize), Some 1, Some 0,
      f32_of (js_mul (js_add (Some 1) (Some (real_of_int num))) ssize), Some 1, Some 0,
      f32_of (js_mul (js_add (Some 0) (Some (real_of_int num))) ssize), Some 1, Some 0,
      f32_of (js_mul (js_add (Some 0) (Some (real_of_int num))) ssize), Some 0, Some 0]"
  by (simp add: stereo_position_def quad_vtx_def upt_rec f32_of_def)

lemma stereo_uv_eq:
  "stereo_uv num ssize =
     [f32_of (js_mul (js_add (Some 0) (Some (real_of_int num))) ssize), Some 0,
      f32_of (js_mul (js_add (Some 1) (Some (real_of_int num))) ssize), Some 0,
      f32_of (js_mul (js_add (Some 1) (Some (real_of_int num))) ssize), Some 1,
      f32_of (js_mul (js_add (Some 1) (Some (real_of_int num))) ssize), Some 1,
      f32_of (js_mul (js_add (Some 0) (Some (real_of_int num))) ssize), Some 1,
      f32_of (js_mul (js_add (Some 0) (Some (real_of_int num))) ssize), Some 0]"
  by (simp add: stereo_uv_def quad_uv_def upt_rec f32_of_def)

lemma quad_of_rect:
  "quad_of [Some x0, Some 0, Some 0, Some x1, Some 0, Some 0, Some x1, Some 1, Some 0,
            Some x1, Some 1, Some 0, Some x0, Some 1, Some 0, Some x0, Some 0, Some 0]
           [Some u0, Some v0, Some u1, Some v0, Some u1, Some v1, Some u1, Some v1,
            Some u0, Some v1, Some u0, Some v0] = Some (x0, x1, u0, u1, v0, v1)"
  by (simp add: quad_of_def)

lemma stereo_indices_single: "stereo_indices (Some 1) nss = Some []"
  by (simp add: stereo_indices_def loop_values_def)

section \<open>Claims about rendering\<close>

lemma real_le_pow: "k \<le> 2 ^ n \<Longrightarrow> real_of_int k \<le> 2 ^ n"
  by (metis of_int_le_iff of_int_numeral of_int_power)

lemma reference_copy_full_width:
  assumes "1 \<le> rw" and "1 \<le> nss" and "rw + nss \<le> 2 ^ 53"
    and "1 \<le> sd" and "sd \<le> 2 ^ 53"
    and "render_width r = Some rw" and "num_sub_strips r = Some nss"
  shows "copy_strip_to_stereo_texture (Some 0)
           (num_floor (js_add (num_of (num_floor (js_mul (Some sd) (num_of (render_width r)))))
                              (num_of (num_sub_strips r)))) r
         = [CopyTexSubImage2D (stereo_texture r) (Some 0) (Some rw) (render_height r)]"
proof -
  have rwr: "real_of_int rw \<le> 2 ^ 53" using assms(1-3) by (intro real_le_pow) simp
  have rw1: "1 \<le> real_of_int rw" using assms(1) by simp
  have prod_le: "\<bar>sd * real_of_int rw\<bar> \<le> 2 ^ 106"
  proof -
    have "sd * real_of_int rw \<le> 2 ^ 53 * 2 ^ 53"
      using assms(4,5) rwr rw1 by (intro mult_mono) simp_all
    then show ?thesis using assms(4) rw1 by simp
  qed
  have m: "js_mul (Some sd) (num_of (render_width r)) = Some (round_double (sd * real_of_int rw))"
    using dbl_bound(1) [OF prod_le] by (simp add: js_mul_def num_of_def assms(6))
  define f where "f = \<lfloor>round_double (sd * real_of_int rw)\<rfloor>"
  have "real_of_int rw \<le> sd * real_of_int rw" using assms(4) rw1 by simp
  then have "real_of_int rw \<le> round_double (sd * real_of_int rw)"
    using assms(1-3) by (intro round_double_ge_int) simp_all
  then have frw: "rw \<le> f" unfolding f_def by (simp add: le_floor_iff)
  have "round_double (sd * real_of_int rw) \<le> 2 ^ 106"
    using dbl_bound(2) [OF prod_le] by simp
  then have "real_of_int f \<le> 2 ^ 106" unfolding f_def
    by (meson of_int_floor_le order_trans)
  then have sum_le: "\<bar>real_of_int f + real_of_int nss\<bar> \<le> 2 ^ 107"
  proof -
    assume a: "real_of_int f \<le> 2 ^ 106"
    have "real_of_int nss \<le> 2 ^ 53" using assms(1-3) by (intro real_le_pow) simp
    moreover have "(2::real) ^ 53 \<le> 2 ^ 106" by simp
    moreover have "0 \<le> real_of_int f" using frw assms(1) by simp
    moreover have "0 \<le> real_of_int nss" using assms(2) by simp
    ultimately show ?thesis using a by simp
  qed
  have a: "js_add (num_of (num_floor (js_mul (Some sd) (num_of (render_width r)))))
             (num_of (num_sub_strips r))
           = Some (round_double (real_of_int f + real_of_int nss))"
    unfolding m using dbl_bound(1) [OF sum_le]
    by (simp add: js_add_def num_of_def num_floor_def assms(7) f_def)
  define w where "w = \<lfloor>round_double (real_of_int f + real_of_int nss)\<rfloor>"
  have "real_of_int (rw + 1) \<le> real_of_int f + real_of_int nss"
    using frw assms(2) by simp
  then have "real_of_int (rw + 1) \<le> round_double (real_of_int f + real_of_int nss)"
    using assms(1-3) by (intro round_double_ge_int) simp_all
  then have "rw + 1 \<le> w" unfolding w_def by (simp only: le_floor_iff)
  then have "rw < w" by simp
  then show ?thesis
    unfolding a
    by (simp add: copy_strip_to_stereo_texture_def num_floor_def js_less_def int_sub_def
        assms(6) w_def)
qed

lemma single_strip_size:
  assumes "render_width r0 = Some rw" and "1 \<le> rw"
    and "num_sub_strips r0 = Some nss" and "1 \<le> nss" and "rw + nss \<le> 2 ^ 53"
    and "setNumStrips (Some 1) r0 = Returns r"
  shows "\<exists>p. r = r0\<lparr>num_strips := Some 1, strip_size := Some (real_of_int p / real_of_int rw)\<rparr>
           \<and> rw \<le> p \<and> p \<le> 2 ^ 53"
proof -
  define p where "p = rw + (- rw) mod nss"
  have npos: "0 < nss" using assms(4) by simp
  have ge: "rw \<le> p" unfolding p_def using npos by simp
  have "p < rw + nss" unfolding p_def using npos by simp
  with assms(5) have le: "p \<le> 2 ^ 53" by simp
  have o: "or_one (Some rw) = rw" "or_one (Some 1) = 1" "or_one (Some nss) = nss"
    using assms(2,4) by (simp_all add: or_one_def)
  have cd: "ceil_div rw 1 = rw" by (simp add: ceil_div_eq_div)
  have "calc_strip_size_pixels (Some rw) (Some 1) (Some nss) = Some p"
    using assms(2) le npos
    by (subst calc_strip_size_pixels_eq) (simp_all add: o cd p_def)
  then have "setNumStrips (Some 1) r0 =
      Returns (r0\<lparr>num_strips := Some 1, strip_size := Some (real_of_int p / real_of_int rw)\<rparr>)"
    by (simp add: setNumStrips_def js_less_def calc_strip_size_def assms(1,3) o)
  with assms(6) have "r = r0\<lparr>num_strips := Some 1, strip_size := Some (real_of_int p / real_of_int rw)\<rparr>"
    by simp
  with ge le show ?thesis by blast
qed

lemma full_width_pixels:
  assumes "1 \<le> x1" and "1 \<le> rw" and "1 \<le> h"
    and "textures e t = Some (Some rw, Some h)"
    and "\<And>uv. fragment_colour (sampler_of e ext st) bg uv \<noteq> None"
  shows "\<exists>st'. gl_exec (rw, h) e ext
            [Clear,
             DrawArrays bg
               [Some 0, Some 0, Some 0, Some x1, Some 0, Some 0, Some x1, Some 1, Some 0,
                Some x1, Some 1, Some 0, Some 0, Some 1, Some 0, Some 0, Some 0, Some 0]
               [Some u0, Some v0, Some u1, Some v0, Some u1, Some v1, Some u1, Some v1,
                Some u0, Some v1, Some u0, Some v0],
             CopyTexSubImage2D (Some t) (Some 0) (Some rw) (Some h)] st = Some st'
          \<and> (\<forall>i j. 0 \<le> i \<and> i < rw \<and> 0 \<le> j \<and> j < h \<longrightarrow>
                fragment_colour (sampler_of e ext st) bg
                  (varying 0 x1 u0 u1 v0 v1 (pixel_centre (rw, h) (i, j)))
                  = Some (framebuffer st' (i, j))
                \<and> texels st' t (i, j) = opaque (framebuffer st' (i, j)))"
proof -
  let ?draw = "DrawArrays bg
               [Some 0, Some 0, Some 0, Some x1, Some 0, Some 0, Some x1, Some 1, Some 0,
                Some x1, Some 1, Some 0, Some 0, Some 1, Some 0, Some 0, Some 0, Some 0]
               [Some u0, Some v0, Some u1, Some v0, Some u1, Some v1, Some u1, Some v1,
                Some u0, Some v1, Some u0, Some v0]"
  let ?copy = "CopyTexSubImage2D (Some t) (Some 0) (Some rw) (Some h)"
  define st0 where "st0 = st\<lparr>framebuffer := (\<lambda>px. black)\<rparr>"
  define fb where "fb = (\<lambda>px.
      if covered (rw, h) 0 x1 px
      then (case fragment_colour (sampler_of e ext st0) bg
                  (varying 0 x1 u0 u1 v0 v1 (pixel_centre (rw, h) px)) of
              Some colour \<Rightarrow> colour
            | None \<Rightarrow> framebuffer st0 px)
      else framebuffer st0 px)"
  define st1 where "st1 = st0\<lparr>framebuffer := fb\<rparr>"
  define st2 where "st2 = st1\<lparr>texels := (texels st1)(t := (\<lambda>px.
      if copies e ?copy px then opaque (framebuffer st1 px) else texels st1 t px))\<rparr>"
  have 0: "gl_step (rw, h) e ext Clear st = Some st0"
    by (simp add: gl_step_def st0_def)
  have sm: "sampler_of e ext st0 = sampler_of e ext st"
    by (simp add: st0_def)
  have 1: "gl_step (rw, h) e ext ?draw st0 = Some st1"
    using assms(5) [of "(0, 0)"]
    by (simp add: gl_step_def quad_of_rect st1_def fb_def sm)
  have 2: "gl_step (rw, h) e ext ?copy st1 = Some st2"
    by (simp add: gl_step_def st2_def)
  have ex: "gl_exec (rw, h) e ext [Clear, ?draw, ?copy] st = Some st2"
    by (simp add: 0 1 2)
  have px: "fragment_colour (sampler_of e ext st) bg
                  (varying 0 x1 u0 u1 v0 v1 (pixel_centre (rw, h) (i, j)))
                  = Some (framebuffer st2 (i, j))
            \<and> texels st2 t (i, j) = opaque (framebuffer st2 (i, j))"
    if r: "0 \<le> i" "i < rw" "0 \<le> j" "j < h" for i j
  proof -
    have rwpos: "0 < real_of_int rw" using assms(2) by simp
    have "real_of_int i + 1 / 2 < real_of_int rw"
    proof -
      have "i + 1 \<le> rw" using r(2) by simp
      then have "real_of_int (i + 1) \<le> real_of_int rw" by (simp only: of_int_le_iff)
      then show ?thesis by simp
    qed
    then have "(real_of_int i + 1 / 2) / real_of_int rw < 1"
      using rwpos by (simp add: divide_less_eq)
    then have c1: "(real_of_int i + 1 / 2) / real_of_int rw < max 0 x1"
      using assms(1) by linarith
    have c0: "min 0 x1 \<le> (real_of_int i + 1 / 2) / real_of_int rw"
    proof -
      have "0 \<le> (real_of_int i + 1 / 2) / real_of_int rw"
        using r(1) rwpos by simp
      then show ?thesis by linarith
    qed
    have cov: "covered (rw, h) 0 x1 (i, j)"
      unfolding covered_def pixel_centre_def fst_conv snd_conv
      using r c0 c1 by blast
    obtain colour where c: "fragment_colour (sampler_of e ext st) bg
                  (varying 0 x1 u0 u1 v0 v1 (pixel_centre (rw, h) (i, j))) = Some colour"
      using assms(5) by blast
    have f: "framebuffer st2 (i, j) = colour"
      using cov c by (simp add: st2_def st1_def fb_def sm)
    have "copies e ?copy (i, j)"
      using r assms(2-4) by (simp add: copies_def copied_columns_def gl_int_def)
    then have "texels st2 t (i, j) = opaque (framebuffer st2 (i, j))"
      by (simp add: st2_def)
    with c f show ?thesis by simp
  qed
  from ex px show ?thesis by blast
qed

text \<open>
  Claim C8.  Let \<^verbatim>\<open>setNumStrips(1)\<close> return on a renderer of width
  \<open>render_width \<ge> 1\<close> with \<open>num_sub_strips \<ge> 1\<close>, both so small that
  \<open>render_width + num_sub_strips \<le> 2 ^ 53\<close>, with a noise seed up to \<open>2 ^ 64\<close> and
  scroll offsets up to \<open>1\<close> in absolute value.  Then \<^verbatim>\<open>render\<close> makes three calls:
  the clear, one draw and one copy.

  \<^item> The draw uses the noise program with the seed when \<^verbatim>\<open>background_mode\<close> is
    \<^verbatim>\<open>BG_NOISE\<close> and the texture program with the tile otherwise.
  \<^item> Its rectangle spans \<open>x\<close> from \<open>0\<close> to \<open>x1\<close>, the single nearest to
    \<^verbatim>\<open>strip_size\<close>, and \<open>1 \<le> x1\<close>: it covers the whole width.
  \<^item> Its texture coordinate goes from the scroll offset \<open>(ax, ay)\<close> (zero for
    noise) to \<open>(ax + 1, ay + 1 / strip_size)\<close>, every number rounded as the code
    rounds it.
  \<^item> The copy starts at column \<open>0\<close> and is \<open>render_width\<close> columns wide.
  \<^item> No call draws with the stereo program.

  On a canvas and a stereogram texture of the render size, WebGL carries the
  calls out, and afterwards every pixel of the canvas has the colour that the
  background program gives at the texture coordinate of its centre, and the texel
  of the stereogram texture at the same place has that colour too.
\<close>

theorem render_single_strip:
  assumes "render_width r0 = Some rw" and "1 \<le> rw"
    and "num_sub_strips r0 = Some nss" and "1 \<le> nss" and "rw + nss \<le> 2 ^ 53"
    and "setNumStrips (Some 1) r0 = Returns r"
    and "noise_seed r0 = Some seed" and "\<bar>seed\<bar> \<le> 2 ^ 64"
    and "bg_scroll_x r0 = Some sx" and "\<bar>sx\<bar> \<le> 1"
    and "bg_scroll_y r0 = Some sy" and "\<bar>sy\<bar> \<le> 1"
    and "render_height r0 = Some h" and "1 \<le> h"
    and "stereo_texture r0 = Some t" and "textures e t = Some (Some rw, Some h)"
  shows "\<exists>bg s x1 ax ay u0 u1 v0 v1 calls.
           render d r = Some calls
         \<and> calls =
            [Clear,
             DrawArrays bg
               [Some 0, Some 0, Some 0, Some x1, Some 0, Some 0, Some x1, Some 1, Some 0,
                Some x1, Some 1, Some 0, Some 0, Some 1, Some 0, Some 0, Some 0, Some 0]
               [Some u0, Some v0, Some u1, Some v0, Some u1, Some v1, Some u1, Some v1,
                Some u0, Some v1, Some u0, Some v0],
             CopyTexSubImage2D (Some t) (Some 0) (Some rw) (Some h)]
         \<and> strip_size r = Some s \<and> 1 \<le> s
         \<and> x1 = round_single (round_double (round_double s)) \<and> 1 \<le> x1
         \<and> bg = (if background_mode r = Some BG_NOISE
                  then NoiseProgram (Some (round_single (round_double seed)))
                  else TextureProgram (tile_texture r))
         \<and> ax = (if background_mode r = Some BG_NOISE then 0 else round_double sx)
         \<and> ay = (if background_mode r = Some BG_NOISE then 0 else round_double sy)
         \<and> u0 = round_single (round_double ax)
         \<and> u1 = round_single (round_double (ax + 1))
         \<and> v0 = round_single (round_double ay)
         \<and> v1 = round_single (round_double (ay + round_double (1 / round_double s)))
         \<and> list_all (\<lambda>c. \<not> is_stereo_draw c) calls
         \<and> (\<exists>st'. render_pixels (rw, h) e ext d r st = Some st'
               \<and> (\<forall>i j. 0 \<le> i \<and> i < rw \<and> 0 \<le> j \<and> j < h \<longrightarrow>
                     fragment_colour (sampler_of e ext st) bg
                       (varying 0 x1 u0 u1 v0 v1 (pixel_centre (rw, h) (i, j)))
                       = Some (framebuffer st' (i, j))
                     \<and> texels st' t (i, j) = opaque (framebuffer st' (i, j))))"
proof -
  obtain p where r: "r = r0\<lparr>num_strips := Some 1,
        strip_size := Some (real_of_int p / real_of_int rw)\<rparr>"
    and prw: "rw \<le> p" and p53: "p \<le> 2 ^ 53"
    using single_strip_size [OF assms(1-6)] by blast
  define s where "s = real_of_int p / real_of_int rw"
  define sd where "sd = round_double s"
  define x1 where "x1 = round_single (round_double sd)"
  define noise where "noise \<longleftrightarrow> background_mode r = Some BG_NOISE"
  define bg where "bg = (if noise then NoiseProgram (Some (round_single (round_double seed)))
                  else TextureProgram (tile_texture r))"
  define ax where "ax = (if noise then 0 else round_double sx)"
  define ay where "ay = (if noise then 0 else round_double sy)"
  define iv where "iv = round_double (1 / sd)"
  define u0 where "u0 = round_single (round_double ax)"
  define u1 where "u1 = round_single (round_double (ax + 1))"
  define v0 where "v0 = round_single (round_double ay)"
  define v1 where "v1 = round_single (round_double (ay + iv))"
  have rwpos: "0 < real_of_int rw" using assms(2) by simp
  have s1: "1 \<le> s" unfolding s_def using prw rwpos by simp
  have "s \<le> real_of_int p"
  proof -
    have "real_of_int p / real_of_int rw \<le> real_of_int p / 1"
      using assms(2) prw by (intro divide_left_mono) simp_all
    then show ?thesis unfolding s_def by simp
  qed
  also have "real_of_int p \<le> 2 ^ 53" using p53 by (rule real_le_pow)
  finally have s53: "\<bar>s\<bar> \<le> 2 ^ 53" using s1 by simp
  have ds: "dbl s = Some sd" unfolding sd_def by (rule dbl_bound(1) [OF s53]) simp
  have sd53: "\<bar>sd\<bar> \<le> 2 ^ 53" unfolding sd_def by (rule dbl_bound(2) [OF s53]) simp
  have sd1: "1 \<le> sd" unfolding sd_def using round_double_ge_int [of 1 s] s1 by simp
  have dsd: "dbl sd = Some (round_double sd)" by (rule dbl_bound(1) [OF sd53]) simp
  have sdd53: "\<bar>round_double sd\<bar> \<le> 2 ^ 53" by (rule dbl_bound(2) [OF sd53]) simp
  have sdd1: "1 \<le> round_double sd" using round_double_ge_int [of 1 sd] sd1 by simp
  have fx1: "f32 (round_double sd) = Some x1" unfolding x1_def
    by (rule f32_bound(1) [OF sdd53]) simp
  have x11: "1 \<le> x1" unfolding x1_def using round_single_ge_int [of 1 "round_double sd"] sdd1 by simp
  have fields: "render_width r = Some rw" "num_strips r = Some 1" "num_sub_strips r = Some nss"
    "strip_size r = Some s" "render_height r = Some h" "stereo_texture r = Some t"
    "noise_seed r = Some seed" "bg_scroll_x r = Some sx" "bg_scroll_y r = Some sy"
    using assms by (simp_all add: r s_def)
  \<comment> \<open>the uniform and the texture coordinates are finite\<close>
  have seed: "f32_of (dbl_of (noise_seed r)) = Some (round_single (round_double seed))"
  proof -
    have 1: "dbl seed = Some (round_double seed)" by (rule dbl_bound(1) [OF assms(8)]) simp
    have "\<bar>round_double seed\<bar> \<le> 2 ^ 64" by (rule dbl_bound(2) [OF assms(8)]) simp
    then have "f32 (round_double seed) = Some (round_single (round_double seed))"
      by (rule f32_bound(1)) simp
    with 1 show ?thesis by (simp add: f32_of_def dbl_of_def fields)
  qed
  have one: "\<bar>z\<bar> \<le> 1 \<Longrightarrow> \<bar>z\<bar> \<le> 2 ^ 0" for z :: real by simp
  have dsx: "dbl sx = Some (round_double sx)" by (rule dbl_bound(1) [OF one [OF assms(10)]]) simp
  have dsy: "dbl sy = Some (round_double sy)" by (rule dbl_bound(1) [OF one [OF assms(12)]]) simp
  have "\<bar>round_double sx\<bar> \<le> 2 ^ 0" by (rule dbl_bound(2) [OF one [OF assms(10)]]) simp
  then have ax1: "\<bar>ax\<bar> \<le> 1" unfolding ax_def by simp
  have "\<bar>round_double sy\<bar> \<le> 2 ^ 0" by (rule dbl_bound(2) [OF one [OF assms(12)]]) simp
  then have ay1: "\<bar>ay\<bar> \<le> 1" unfolding ay_def by simp
  have scroll: "(if noise then Some 0 else dbl_of (bg_scroll_x r)) = Some ax"
    "(if noise then Some 0 else dbl_of (bg_scroll_y r)) = Some ay"
    by (simp_all add: ax_def ay_def dbl_of_def fields dsx dsy)
  have fin: "f32_of (dbl z) = Some (round_single (round_double z))" if "\<bar>z\<bar> \<le> 2" for z
  proof -
    have z: "\<bar>z\<bar> \<le> 2 ^ 1" using that by simp
    have 1: "dbl z = Some (round_double z)" by (rule dbl_bound(1) [OF z]) simp
    have "\<bar>round_double z\<bar> \<le> 2 ^ 1" by (rule dbl_bound(2) [OF z]) simp
    then have "f32 (round_double z) = Some (round_single (round_double z))"
      by (rule f32_bound(1)) simp
    with 1 show ?thesis by (simp add: f32_of_def)
  qed
  have inv: "\<bar>1 / sd\<bar> \<le> 2 ^ 0" using sd1 by simp
  have div1: "js_div (Some 1) (Some sd) = Some iv"
    using sd1 dbl_bound(1) [OF inv] by (simp add: js_div_def iv_def)
  have iv1: "\<bar>iv\<bar> \<le> 1" unfolding iv_def using dbl_bound(2) [OF inv] by simp
  have div0: "js_div (Some 0) (Some sd) = Some 0"
    using sd1 by (simp add: js_div_def)
  have e_u0: "f32_of (js_add (Some ax) (Some 0)) = Some u0"
    unfolding u0_def using fin [of ax] ax1 by (simp add: js_add_def)
  have e_u1: "f32_of (js_add (Some ax) (Some 1)) = Some u1"
    unfolding u1_def using fin [of "ax + 1"] ax1 by (simp add: js_add_def)
  have e_v0: "f32_of (js_add (Some ay) (js_div (Some 0) (Some sd))) = Some v0"
    unfolding v0_def div0 using fin [of ay] ay1 by (simp add: js_add_def)
  have e_v1: "f32_of (js_add (Some ay) (js_div (Some 1) (Some sd))) = Some v1"
    unfolding v1_def div1 using fin [of "ay + iv"] ay1 iv1 by (simp add: js_add_def)
  have e_x0: "f32_of (js_mul (Some 0) (Some sd)) = Some 0"
    by (simp add: js_mul_def f32_of_def)
  have e_x1: "f32_of (js_mul (Some 1) (Some sd)) = Some x1"
    by (simp add: js_mul_def f32_of_def dsd fx1)
  let ?pos = "[Some 0, Some 0, Some 0, Some x1, Some 0, Some 0, Some x1, Some 1, Some 0,
                Some x1, Some 1, Some 0, Some 0, Some 1, Some 0, Some 0, Some 0, Some 0]"
  let ?uv = "[Some u0, Some v0, Some u1, Some v0, Some u1, Some v1, Some u1, Some v1,
                Some u0, Some v1, Some u0, Some v0]"
  let ?calls = "[Clear, DrawArrays bg ?pos ?uv,
                 CopyTexSubImage2D (Some t) (Some 0) (Some rw) (Some h)]"
  have pos: "reference_position (Some sd) = ?pos"
    unfolding reference_position_eq e_x0 e_x1 ..
  have uv: "reference_uv (Some ax) (Some ay) (Some sd) = ?uv"
    unfolding reference_uv_eq e_u0 e_u1 e_v0 e_v1 ..
  have copy: "copy_strip_to_stereo_texture (Some 0)
           (num_floor (js_add (num_of (num_floor (js_mul (Some sd) (num_of (render_width r)))))
                              (num_of (num_sub_strips r)))) r
         = [CopyTexSubImage2D (Some t) (Some 0) (Some rw) (Some h)]"
    using reference_copy_full_width [OF assms(2,4,5) sd1 _ fields(1,3)] sd53 sd1
    by (simp add: fields)
  have ref: "render_reference_strip (Some sd) r =
      [DrawArrays bg ?pos ?uv, CopyTexSubImage2D (Some t) (Some 0) (Some rw) (Some h)]"
  proof (cases noise)
    case True
    then have "background_mode r = Some BG_NOISE" by (simp add: noise_def)
    then show ?thesis
      using True scroll pos uv unfolding render_reference_strip_def copy
      by (simp add: bg_def seed)
  next
    case False
    then have "background_mode r \<noteq> Some BG_NOISE" by (simp add: noise_def)
    then show ?thesis
      using False scroll pos uv unfolding render_reference_strip_def copy
      by (simp add: bg_def)
  qed
  have calls: "render d r = Some ?calls"
    by (simp add: render_def Let_def fields dbl_of_def ds stereo_indices_single ref)
  have nostereo: "list_all (\<lambda>c. \<not> is_stereo_draw c) ?calls"
    by (cases noise) (simp_all add: bg_def)
  have colour: "fragment_colour (sampler_of e ext st) bg uv \<noteq> None" for uv
    by (cases noise) (simp_all add: bg_def fragment_colour_def)
  have pixels: "\<exists>st'. render_pixels (rw, h) e ext d r st = Some st'
               \<and> (\<forall>i j. 0 \<le> i \<and> i < rw \<and> 0 \<le> j \<and> j < h \<longrightarrow>
                     fragment_colour (sampler_of e ext st) bg
                       (varying 0 x1 u0 u1 v0 v1 (pixel_centre (rw, h) (i, j)))
                       = Some (framebuffer st' (i, j))
                     \<and> texels st' t (i, j) = opaque (framebuffer st' (i, j)))"
    unfolding render_pixels_def calls option.case
    by (rule full_width_pixels [OF x11 assms(2,14,16) colour])
  have b1: "x1 = round_single (round_double (round_double s))"
    by (simp add: x1_def sd_def)
  have b2: "bg = (if background_mode r = Some BG_NOISE
                  then NoiseProgram (Some (round_single (round_double seed)))
                  else TextureProgram (tile_texture r))"
    by (simp add: bg_def noise_def)
  have b3: "ax = (if background_mode r = Some BG_NOISE then 0 else round_double sx)"
    "ay = (if background_mode r = Some BG_NOISE then 0 else round_double sy)"
    by (simp_all add: ax_def ay_def noise_def)
  have b4: "v1 = round_single (round_double (ay + round_double (1 / round_double s)))"
    by (simp add: v1_def iv_def sd_def)
  show ?thesis
    using calls fields(4) s1 b1 x11 b2 b3 u0_def u1_def v0_def b4 nostereo pixels
    by blast
qed

text \<open>The claim for a renderer constructed at \<open>640 \<times> 480\<close> after
  \<^verbatim>\<open>setNumStrips(1)\<close>: the strip is \<open>640\<close> pixels, \<^verbatim>\<open>strip_size\<close> is \<open>1\<close>, the
  noise program is drawn over the unit square with the texture coordinate of the
  unit square, and all \<open>640\<close> columns are copied; the last pixel has the colour of
  the noise at its centre, and so has its texel.\<close>

theorem render_single_strip_witness:
  "render None
     \<lparr>render_width = Some 640, render_height = Some 480, stereo_texture = Some 0,
        num_strips = Some 1, num_sub_strips = Some 2, strip_size = Some 1,
        depth_factor = Some (1 / 75), background_mode = Some BG_NOISE,
        noise_seed = Some 0, tile_texture = None, bg_scroll_x = Some 0,
        bg_scroll_y = Some 0\<rparr>
   = Some [Clear,
       DrawArrays (NoiseProgram (Some 0))
         [Some 0, Some 0, Some 0, Some 1, Some 0, Some 0, Some 1, Some 1, Some 0,
          Some 1, Some 1, Some 0, Some 0, Some 1, Some 0, Some 0, Some 0, Some 0]
         [Some 0, Some 0, Some 1, Some 0, Some 1, Some 1, Some 1, Some 1,
          Some 0, Some 1, Some 0, Some 0],
       CopyTexSubImage2D (Some 0) (Some 0) (Some 640) (Some 480)]
   \<and> (\<exists>st'. render_pixels (640, 480)
          \<lparr>global_gl = True, shaders_compile = True, next_texture = 1,
             textures = [0 \<mapsto> (Some 640, Some 480)], gl_log = []\<rparr>
          white_textures None
          \<lparr>render_width = Some 640, render_height = Some 480, stereo_texture = Some 0,
             num_strips = Some 1, num_sub_strips = Some 2, strip_size = Some 1,
             depth_factor = Some (1 / 75), background_mode = Some BG_NOISE,
             noise_seed = Some 0, tile_texture = None, bg_scroll_x = Some 0,
             bg_scroll_y = Some 0\<rparr>
          blank_state = Some st'
        \<and> framebuffer st' (639, 479) = noise_fragment 0 (1279 / 1280, 959 / 960)
        \<and> texels st' 0 (639, 479) = opaque (noise_fragment 0 (1279 / 1280, 959 / 960)))"
proof -
  let ?r0 = "\<lparr>render_width = Some 640, render_height = Some 480, stereo_texture = Some 0,
        num_strips = Some 6, num_sub_strips = Some 2, strip_size = Some (27 / 160),
        depth_factor = Some (1 / 75), background_mode = Some BG_NOISE,
        noise_seed = Some 0, tile_texture = None, bg_scroll_x = Some 0,
        bg_scroll_y = Some 0\<rparr>"
  let ?r = "\<lparr>render_width = Some 640, render_height = Some 480, stereo_texture = Some 0,
        num_strips = Some 1, num_sub_strips = Some 2, strip_size = Some 1,
        depth_factor = Some (1 / 75), background_mode = Some BG_NOISE,
        noise_seed = Some 0, tile_texture = None, bg_scroll_x = Some 0,
        bg_scroll_y = Some 0\<rparr>"
  let ?e = "\<lparr>global_gl = True, shaders_compile = True, next_texture = 1,
             textures = [0 \<mapsto> (Some 640, Some 480)], gl_log = []\<rparr>"
  have px: "calc_strip_size_pixels (Some 640) (Some 1) (Some 2) = Some 640"
    by (subst calc_strip_size_pixels_eq) (simp_all add: or_one_def ceil_div_eq_div)
  have set: "setNumStrips (Some 1) ?r0 = Returns ?r"
    by (simp add: setNumStrips_def js_less_def calc_strip_size_def px or_one_def)
  have h: "render_width ?r0 = Some 640" "(1::int) \<le> 640" "num_sub_strips ?r0 = Some 2"
    "(1::int) \<le> 2" "(640::int) + 2 \<le> 2 ^ 53"
    by simp_all
  have h': "noise_seed ?r0 = Some 0" "\<bar>0::real\<bar> \<le> 2 ^ 64"
    "bg_scroll_x ?r0 = Some 0" "\<bar>0::real\<bar> \<le> 1" "bg_scroll_y ?r0 = Some 0" "\<bar>0::real\<bar> \<le> 1"
    "render_height ?r0 = Some 480" "(1::int) \<le> 480" "stereo_texture ?r0 = Some 0"
    "textures ?e 0 = Some (Some 640, Some 480)"
    by simp_all
  from render_single_strip [OF h set h', of None white_textures blank_state]
  obtain bg s x1 ax ay u0 u1 v0 v1 calls st' where
    calls: "render None ?r = Some calls"
      "calls = [Clear,
             DrawArrays bg
               [Some 0, Some 0, Some 0, Some x1, Some 0, Some 0, Some x1, Some 1, Some 0,
                Some x1, Some 1, Some 0, Some 0, Some 1, Some 0, Some 0, Some 0, Some 0]
               [Some u0, Some v0, Some u1, Some v0, Some u1, Some v1, Some u1, Some v1,
                Some u0, Some v1, Some u0, Some v0],
             CopyTexSubImage2D (Some 0) (Some 0) (Some 640) (Some 480)]"
    and s: "strip_size ?r = Some s"
    and x1: "x1 = round_single (round_double (round_double s))"
    and bg: "bg = (if background_mode ?r = Some BG_NOISE
                  then NoiseProgram (Some (round_single (round_double 0)))
                  else TextureProgram (tile_texture ?r))"
    and a: "ax = (if background_mode ?r = Some BG_NOISE then 0 else round_double 0)"
      "ay = (if background_mode ?r = Some BG_NOISE then 0 else round_double 0)"
    and u: "u0 = round_single (round_double ax)" "u1 = round_single (round_double (ax + 1))"
      "v0 = round_single (round_double ay)"
      "v1 = round_single (round_double (ay + round_double (1 / round_double s)))"
    and st: "render_pixels (640, 480) ?e white_textures None ?r blank_state = Some st'"
    and pix: "\<forall>i j. 0 \<le> i \<and> i < 640 \<and> 0 \<le> j \<and> j < 480 \<longrightarrow>
                     fragment_colour (sampler_of ?e white_textures blank_state) bg
                       (varying 0 x1 u0 u1 v0 v1 (pixel_centre (640, 480) (i, j)))
                       = Some (framebuffer st' (i, j))
                     \<and> texels st' 0 (i, j) = opaque (framebuffer st' (i, j))"
    by blast
  have s1: "s = 1" using s by simp
  have v: "x1 = 1" "ax = 0" "ay = 0" "u0 = 0" "u1 = 1" "v0 = 0" "v1 = 1"
    "bg = NoiseProgram (Some 0)"
    using x1 a u bg by (simp_all add: s1)
  have c: "fragment_colour (sampler_of ?e white_textures blank_state) bg
             (varying 0 x1 u0 u1 v0 v1 (pixel_centre (640, 480) (639, 479)))
           = Some (framebuffer st' (639, 479))"
    and tx: "texels st' 0 (639, 479) = opaque (framebuffer st' (639, 479))"
    using pix [rule_format, of 639 479] by simp_all
  have f: "framebuffer st' (639, 479) = noise_fragment 0 (1279 / 1280, 959 / 960)"
    using c unfolding v by (simp add: fragment_colour_def varying_def pixel_centre_def)
  from calls st f tx show ?thesis unfolding v by auto
qed

section \<open>The indices of the stereo strips\<close>

lemma upto_shift: "map (\<lambda>sub. c + sub) [i..j] = [c + i .. c + j]"
proof (induction "nat (j - i + 1)" arbitrary: i)
  case 0
  then show ?case by simp
next
  case (Suc k)
  then have le: "i \<le> j" by simp
  have "k = nat (j - (i + 1) + 1)" using Suc(2) by simp
  from Suc(1) [OF this] have "map (\<lambda>sub. c + sub) [i + 1..j] = [c + (i + 1)..c + j]" .
  then show ?case using le by (simp add: upto_rec1 add.assoc)
qed

lemma concat_strips:
  assumes "1 \<le> m"
  shows "concat (map (\<lambda>strip. map (\<lambda>sub. m * strip + sub) [0 .. m - 1]) [1 .. int k])
         = [m .. (int k + 1) * m - 1]"
proof (induction k)
  case 0
  then show ?case by simp
next
  case (Suc k)
  have "[1 .. int (Suc k)] = [1 .. int k] @ [int k + 1]"
    by (simp add: upto_rec2)
  then have "concat (map (\<lambda>strip. map (\<lambda>sub. m * strip + sub) [0 .. m - 1]) [1 .. int (Suc k)])
      = [m .. (int k + 1) * m - 1] @ [m * (int k + 1) .. m * (int k + 1) + (m - 1)]"
    using Suc by (simp add: upto_shift)
  also have "\<dots> = [m .. (int (Suc k) + 1) * m - 1]"
  proof -
    have a: "m \<le> (int k + 1) * m" using assms by (simp add: mult_le_cancel_right1)
    have b: "(int k + 1) * m \<le> (int (Suc k) + 1) * m - 1" using assms by (simp add: algebra_simps)
    show ?thesis
      using upto_split1 [OF a b] by (simp add: algebra_simps)
  qed
  finally show ?case .
qed

lemma strip_index_exact:
  assumes "\<bar>m * strip\<bar> \<le> 2 ^ 53" and "\<bar>m * strip + sub\<bar> \<le> 2 ^ 53"
  shows "strip_index m strip sub = m * strip + sub"
proof -
  have 1: "round_double (real_of_int m * real_of_int strip) = real_of_int (m * strip)"
    using round_double_int [OF assms(1)] by simp
  have 2: "round_double (real_of_int (m * strip) + real_of_int sub)
      = real_of_int (m * strip + sub)"
    using round_double_int [OF assms(2)] by simp
  show ?thesis unfolding strip_index_def 1 2 by (rule floor_of_int)
qed

lemma stereo_indices_eq:
  assumes "1 \<le> ns" and "1 \<le> nss" and "ns * nss \<le> 2 ^ 53"
  shows "stereo_indices (Some ns) (Some nss) = Some [nss .. ns * nss - 1]"
proof -
  have ns53: "ns \<le> 2 ^ 53"
  proof -
    have "ns * 1 \<le> ns * nss" using assms(1,2) by (intro mult_left_mono) simp_all
    with assms(3) show ?thesis by simp
  qed
  have nss53: "nss \<le> 2 ^ 53"
  proof -
    have "1 * nss \<le> ns * nss" using assms(1,2) by (intro mult_right_mono) simp_all
    with assms(3) show ?thesis by simp
  qed
  obtain k where k: "ns - 1 = int k" using assms(1) nonneg_int_cases [of "ns - 1"] by auto
  then have n: "ns = int k + 1" by simp
  have exact: "strip_index nss strip sub = nss * strip + sub"
    if "strip \<in> set [1 .. int k]" "sub \<in> set [0 .. nss - 1]" for strip sub
  proof -
    have s: "1 \<le> strip" "strip \<le> ns - 1" "0 \<le> sub" "sub \<le> nss - 1"
      using that by (simp_all add: n)
    have 0: "0 \<le> nss * strip" using assms(2) s(1) by simp
    have "nss * strip \<le> nss * (ns - 1)" using s(2) assms(2) by (intro mult_left_mono) simp_all
    then have 1: "nss * strip + sub \<le> ns * nss - 1" using s(4) by (simp add: algebra_simps)
    show ?thesis
      using 0 1 s(3) assms(3) by (intro strip_index_exact) simp_all
  qed
  have map_eq: "map (\<lambda>strip. map (\<lambda>sub. strip_index nss strip sub) [0 .. nss - 1]) [1 .. int k]
      = map (\<lambda>strip. map (\<lambda>sub. nss * strip + sub) [0 .. nss - 1]) [1 .. int k]"
    by (intro map_cong refl) (simp add: exact)
  show ?thesis
  proof (cases "k = 0")
    case True
    then have "ns = 1" using n by simp
    then show ?thesis using assms(2) by (simp add: stereo_indices_def loop_values_def)
  next
    case False
    then have ne: "[1 .. ns - 1] \<noteq> []" using n by simp
    have "stereo_indices (Some ns) (Some nss)
        = Some (concat (map (\<lambda>strip. map (\<lambda>sub. strip_index nss strip sub) [0 .. nss - 1])
            [1 .. ns - 1]))"
      using ne ns53 nss53 by (simp add: stereo_indices_def loop_values_def)
    also have "\<dots> = Some [nss .. ns * nss - 1]"
      unfolding n using concat_strips [OF assms(2), of k] map_eq
      by (simp only: add_diff_cancel_right')
    finally show ?thesis .
  qed
qed

section \<open>The draw of a stereo strip\<close>

lemma f32_of_product:
  assumes "\<bar>a\<bar> \<le> 2 ^ 53" and "\<bar>b\<bar> \<le> 2 ^ 53"
  shows "f32_of (js_mul (Some a) (Some b)) = Some (round_single (round_double (a * b)))"
proof -
  have "\<bar>a\<bar> * \<bar>b\<bar> \<le> 2 ^ 53 * 2 ^ 53"
    using assms by (intro mult_mono) simp_all
  then have p: "\<bar>a * b\<bar> \<le> 2 ^ 106" by (simp add: abs_mult)
  have 1: "dbl (a * b) = Some (round_double (a * b))" by (rule dbl_bound(1) [OF p]) simp
  have "\<bar>round_double (a * b)\<bar> \<le> 2 ^ 106" by (rule dbl_bound(2) [OF p]) simp
  then have "f32 (round_double (a * b)) = Some (round_single (round_double (a * b)))"
    by (rule f32_bound(1)) simp
  with 1 show ?thesis by (simp add: js_mul_def f32_of_def)
qed

lemma sub_strip_size:
  assumes "\<bar>s\<bar> \<le> 2 ^ 53" and "1 \<le> nss"
  shows "js_div (dbl_of (Some s)) (num_of (Some nss))
           = Some (round_double (round_double s / real_of_int nss))"
    and "\<bar>round_double (round_double s / real_of_int nss)\<bar> \<le> 2 ^ 53"
proof -
  have 1: "dbl s = Some (round_double s)" by (rule dbl_bound(1) [OF assms(1)]) simp
  have sd: "\<bar>round_double s\<bar> \<le> 2 ^ 53" by (rule dbl_bound(2) [OF assms(1)]) simp
  have n1: "1 \<le> real_of_int nss" using assms(2) by simp
  have "\<bar>round_double s\<bar> / real_of_int nss \<le> \<bar>round_double s\<bar> / 1"
    using n1 by (intro divide_left_mono) simp_all
  then have q: "\<bar>round_double s / real_of_int nss\<bar> \<le> 2 ^ 53"
    using sd n1 by (simp add: abs_divide)
  have 2: "dbl (round_double s / real_of_int nss)
      = Some (round_double (round_double s / real_of_int nss))"
    by (rule dbl_bound(1) [OF q]) simp
  show "js_div (dbl_of (Some s)) (num_of (Some nss))
           = Some (round_double (round_double s / real_of_int nss))"
    using n1 by (simp add: dbl_of_def 1 js_div_def num_of_def 2)
  show "\<bar>round_double (round_double s / real_of_int nss)\<bar> \<le> 2 ^ 53"
    by (rule dbl_bound(2) [OF q]) simp
qed

lemma stereo_quad:
  assumes "\<bar>sub\<bar> \<le> 2 ^ 53" and "0 \<le> num" and "num + 1 \<le> 2 ^ 53"
  shows "stereo_position num (Some sub) =
           [Some (round_single (round_double (real_of_int num * sub))), Some 0, Some 0,
            Some (round_single (round_double (real_of_int (num + 1) * sub))), Some 0, Some 0,
            Some (round_single (round_double (real_of_int (num + 1) * sub))), Some 1, Some 0,
            Some (round_single (round_double (real_of_int (num + 1) * sub))), Some 1, Some 0,
            Some (round_single (round_double (real_of_int num * sub))), Some 1, Some 0,
            Some (round_single (round_double (real_of_int num * sub))), Some 0, Some 0]"
    and "stereo_uv num (Some sub) =
           [Some (round_single (round_double (real_of_int num * sub))), Some 0,
            Some (round_single (round_double (real_of_int (num + 1) * sub))), Some 0,
            Some (round_single (round_double (real_of_int (num + 1) * sub))), Some 1,
            Some (round_single (round_double (real_of_int (num + 1) * sub))), Some 1,
            Some (round_single (round_double (real_of_int num * sub))), Some 1,
            Some (round_single (round_double (real_of_int num * sub))), Some 0]"
proof -
  have n0: "\<bar>num\<bar> \<le> 2 ^ 53" and n1: "\<bar>num + 1\<bar> \<le> 2 ^ 53" using assms(2,3) by simp_all
  have a0: "js_add (Some 0) (Some (real_of_int num)) = Some (real_of_int num)"
    using dbl_int [OF n0] by (simp add: js_add_def)
  have a1: "js_add (Some 1) (Some (real_of_int num)) = Some (real_of_int (num + 1))"
    using dbl_int [OF n1] by (simp add: js_add_def add.commute)
  have r0: "\<bar>real_of_int num\<bar> \<le> 2 ^ 53" using n0
    by (metis of_int_abs of_int_le_iff of_int_numeral of_int_power)
  have r1: "\<bar>real_of_int (num + 1)\<bar> \<le> 2 ^ 53" using n1
    by (metis of_int_abs of_int_le_iff of_int_numeral of_int_power)
  have x0: "f32_of (js_mul (js_add (Some 0) (Some (real_of_int num))) (Some sub))
      = Some (round_single (round_double (real_of_int num * sub)))"
    unfolding a0 by (rule f32_of_product [OF r0 assms(1)])
  have x1: "f32_of (js_mul (js_add (Some 1) (Some (real_of_int num))) (Some sub))
      = Some (round_single (round_double (real_of_int (num + 1) * sub)))"
    unfolding a1 by (rule f32_of_product [OF r1 assms(1)])
  show "stereo_position num (Some sub) =
           [Some (round_single (round_double (real_of_int num * sub))), Some 0, Some 0,
            Some (round_single (round_double (real_of_int (num + 1) * sub))), Some 0, Some 0,
            Some (round_single (round_double (real_of_int (num + 1) * sub))), Some 1, Some 0,
            Some (round_single (round_double (real_of_int (num + 1) * sub))), Some 1, Some 0,
            Some (round_single (round_double (real_of_int num * sub))), Some 1, Some 0,
            Some (round_single (round_double (real_of_int num * sub))), Some 0, Some 0]"
    unfolding stereo_position_eq x0 x1 ..
  show "stereo_uv num (Some sub) =
           [Some (round_single (round_double (real_of_int num * sub))), Some 0,
            Some (round_single (round_double (real_of_int (num + 1) * sub))), Some 0,
            Some (round_single (round_double (real_of_int (num + 1) * sub))), Some 1,
            Some (round_single (round_double (real_of_int (num + 1) * sub))), Some 1,
            Some (round_single (round_double (real_of_int num * sub))), Some 1,
            Some (round_single (round_double (real_of_int num * sub))), Some 0]"
    unfolding stereo_uv_eq x0 x1 ..
qed

lemma varying_identity:
  "x0 \<noteq> x1 \<Longrightarrow> varying x0 x1 x0 x1 0 1 c = c"
  by (simp add: varying_def prod_eq_iff)

lemma covered_distinct: "covered canvas x0 x1 px \<Longrightarrow> x0 \<noteq> x1"
  by (auto simp: covered_def)

lemma stereo_draw_step:
  "\<exists>st'. gl_step canvas e ext
      (DrawArrays (StereoProgram (Some ss) (Some dss) (Some df) d t)
         [Some x0, Some 0, Some 0, Some x1, Some 0, Some 0, Some x1, Some 1, Some 0,
          Some x1, Some 1, Some 0, Some x0, Some 1, Some 0, Some x0, Some 0, Some 0]
         [Some x0, Some 0, Some x1, Some 0, Some x1, Some 1, Some x1, Some 1,
          Some x0, Some 1, Some x0, Some 0]) st = Some st'
     \<and> (\<forall>px. covered canvas x0 x1 px \<longrightarrow>
          framebuffer st' px =
            sampler_of e ext st t
              (fst (pixel_centre canvas px)
                 + fst (sampler_of e ext st d
                     ((fst (pixel_centre canvas px) / dss - 1) * ss,
                      snd (pixel_centre canvas px))) * df
                 - ss,
               snd (pixel_centre canvas px)))
     \<and> (\<forall>px. \<not> covered canvas x0 x1 px \<longrightarrow> framebuffer st' px = framebuffer st px)
     \<and> texels st' = texels st"
proof -
  let ?p = "StereoProgram (Some ss) (Some dss) (Some df) d t"
  define fb where "fb = (\<lambda>px.
      if covered canvas x0 x1 px
      then (case fragment_colour (sampler_of e ext st) ?p
                  (varying x0 x1 x0 x1 0 1 (pixel_centre canvas px)) of
              Some colour \<Rightarrow> colour
            | None \<Rightarrow> framebuffer st px)
      else framebuffer st px)"
  have 1: "gl_step canvas e ext
      (DrawArrays ?p
         [Some x0, Some 0, Some 0, Some x1, Some 0, Some 0, Some x1, Some 1, Some 0,
          Some x1, Some 1, Some 0, Some x0, Some 1, Some 0, Some x0, Some 0, Some 0]
         [Some x0, Some 0, Some x1, Some 0, Some x1, Some 1, Some x1, Some 1,
          Some x0, Some 1, Some x0, Some 0]) st = Some (st\<lparr>framebuffer := fb\<rparr>)"
    by (simp add: gl_step_def quad_of_rect fb_def fragment_colour_def)
  have 2: "fb px = sampler_of e ext st t
              (fst (pixel_centre canvas px)
                 + fst (sampler_of e ext st d
                     ((fst (pixel_centre canvas px) / dss - 1) * ss,
                      snd (pixel_centre canvas px))) * df
                 - ss,
               snd (pixel_centre canvas px))"
    if "covered canvas x0 x1 px" for px
    using that varying_identity [OF covered_distinct [OF that]]
    by (simp add: fb_def fragment_colour_def stereo_fragment_def Let_def)
  have 3: "fb px = framebuffer st px" if "\<not> covered canvas x0 x1 px" for px
    using that by (simp add: fb_def)
  from 1 2 3 show ?thesis by simp
qed

lemma reference_strip_no_stereo:
  "c \<in> set (render_reference_strip ss r) \<Longrightarrow> \<not> is_stereo_draw c"
  by (cases "background_mode r = Some BG_NOISE")
     (auto simp: render_reference_strip_def copy_strip_to_stereo_texture_def Let_def)

lemma stereo_strip_stereo_draw:
  "c \<in> set (render_stereo_strip sh num ss r) \<Longrightarrow> is_stereo_draw c \<Longrightarrow>
     c = DrawArrays sh (stereo_position num ss) (stereo_uv num ss)"
  by (auto simp: render_stereo_strip_def copy_strip_to_stereo_texture_def Let_def)

lemma f32_of_dbl_of:
  assumes "\<bar>x\<bar> \<le> 2 ^ 64"
  shows "f32_of (dbl_of (Some x)) = Some (round_single (round_double x))"
proof -
  have 1: "dbl x = Some (round_double x)" by (rule dbl_bound(1) [OF assms]) simp
  have "\<bar>round_double x\<bar> \<le> 2 ^ 64" by (rule dbl_bound(2) [OF assms]) simp
  then have "f32 (round_double x) = Some (round_single (round_double x))"
    by (rule f32_bound(1)) simp
  with 1 show ?thesis by (simp add: f32_of_def dbl_of_def)
qed

lemma depth_strip_size_uniform:
  assumes "1 \<le> ns" and "ns \<le> 2 ^ 53"
  shows "f32_of (js_div (Some 1) (js_add (num_of (Some ns)) (Some 1)))
         = Some (round_single (round_double (1 / round_double (real_of_int ns + 1))))"
proof -
  have "real_of_int ns \<le> 2 ^ 53" using assms(2) by (rule real_le_pow)
  then have b: "\<bar>real_of_int ns + 1\<bar> \<le> 2 ^ 54" using assms(1) by simp
  have 1: "dbl (real_of_int ns + 1) = Some (round_double (real_of_int ns + 1))"
    by (rule dbl_bound(1) [OF b]) simp
  have "real_of_int 1 \<le> real_of_int ns + 1" using assms(1) by simp
  then have "real_of_int 1 \<le> round_double (real_of_int ns + 1)"
    by (intro round_double_ge_int) simp_all
  then have n1: "1 \<le> round_double (real_of_int ns + 1)" by simp
  then have q: "\<bar>1 / round_double (real_of_int ns + 1)\<bar> \<le> 2 ^ 0" by simp
  have 2: "dbl (1 / round_double (real_of_int ns + 1))
      = Some (round_double (1 / round_double (real_of_int ns + 1)))"
    by (rule dbl_bound(1) [OF q]) simp
  have "\<bar>round_double (1 / round_double (real_of_int ns + 1))\<bar> \<le> 2 ^ 0"
    by (rule dbl_bound(2) [OF q]) simp
  then have 3: "f32 (round_double (1 / round_double (real_of_int ns + 1)))
      = Some (round_single (round_double (1 / round_double (real_of_int ns + 1))))"
    by (rule f32_bound(1)) simp
  show ?thesis
    using n1 by (simp add: js_add_def num_of_def 1 js_div_def 2 f32_of_def 3)
qed

lemma render_calls:
  assumes "num_strips r = Some ns" and "num_sub_strips r = Some nss"
    and "1 \<le> ns" and "1 \<le> nss" and "ns * nss \<le> 2 ^ 53"
    and "strip_size r = Some s" and "\<bar>s\<bar> \<le> 2 ^ 53"
    and "depth_factor r = Some df" and "\<bar>df\<bar> \<le> 2 ^ 64"
  shows "render d r = Some (Clear
          # render_reference_strip (Some (round_double s)) r
          @ concat (map (\<lambda>num.
              render_stereo_strip
                (StereoProgram (Some (round_single (round_double s)))
                   (Some (round_single (round_double (1 / round_double (real_of_int ns + 1)))))
                   (Some (round_single (round_double df))) d (stereo_texture r))
                num (Some (round_double (round_double s / real_of_int nss))) r)
              [nss .. ns * nss - 1]))"
proof -
  have ns53: "ns \<le> 2 ^ 53"
  proof -
    have "ns * 1 \<le> ns * nss" using assms(3,4) by (intro mult_left_mono) simp_all
    with assms(5) show ?thesis by simp
  qed
  have idx: "stereo_indices (num_strips r) (num_sub_strips r) = Some [nss .. ns * nss - 1]"
    unfolding assms(1,2) by (rule stereo_indices_eq [OF assms(3-5)])
  have ds: "dbl_of (strip_size r) = Some (round_double s)"
    using dbl_bound(1) [OF assms(7)] by (simp add: dbl_of_def assms(6))
  have sd: "\<bar>round_double s\<bar> \<le> 2 ^ 64"
  proof -
    have "\<bar>round_double s\<bar> \<le> 2 ^ 53" by (rule dbl_bound(2) [OF assms(7)]) simp
    moreover have "(2::real) ^ 53 \<le> 2 ^ 64" by simp
    ultimately show ?thesis by linarith
  qed
  have u1: "f32_of (Some (round_double s)) = Some (round_single (round_double s))"
    using f32_bound(1) [OF sd] by (simp add: f32_of_def)
  have u2: "f32_of (js_div (Some 1) (js_add (num_of (num_strips r)) (Some 1)))
         = Some (round_single (round_double (1 / round_double (real_of_int ns + 1))))"
    unfolding assms(1) by (rule depth_strip_size_uniform [OF assms(3) ns53])
  have u3: "f32_of (dbl_of (depth_factor r)) = Some (round_single (round_double df))"
    unfolding assms(8) by (rule f32_of_dbl_of [OF assms(9)])
  have sub: "js_div (Some (round_double s)) (num_of (num_sub_strips r))
      = Some (round_double (round_double s / real_of_int nss))"
    using sub_strip_size(1) [OF assms(7,4)] dbl_bound(1) [OF assms(7)]
    by (simp add: dbl_of_def assms(2))
  show ?thesis
    unfolding render_def Let_def idx ds u1 u2 u3 sub by simp
qed

text \<open>
  Claim C2.  Let \<^verbatim>\<open>render\<close> run with \<open>num_strips \<ge> 1\<close> strips of
  \<open>num_sub_strips \<ge> 1\<close> sub-strips, at most \<open>2 ^ 53\<close> in all, a strip size up to
  \<open>2 ^ 53\<close> and a depth factor up to \<open>2 ^ 64\<close> in absolute value.  Every draw with
  the stereo program that it makes is the draw of one sub-strip \<open>num\<close>, with
  \<open>num_sub_strips \<le> num < num_strips * num_sub_strips\<close>:

  \<^item> its rectangle and its texture coordinate both span \<open>x\<close> from \<open>x0\<close> to \<open>x1\<close>,
    the singles nearest to \<open>num * sub\<close> and \<open>(num + 1) * sub\<close>, where \<open>sub\<close> is
    \<^verbatim>\<open>strip_size / num_sub_strips\<close>, so that the texture coordinate of a fragment is
    the centre \<open>(frag_x, frag_y)\<close> of its pixel;
  \<^item> its uniforms are \<^verbatim>\<open>strip_size\<close> = the field \<^verbatim>\<open>strip_size\<close>,
    \<^verbatim>\<open>depth_strip_size\<close> = \<open>1 / (num_strips + 1)\<close> and \<^verbatim>\<open>depth_factor\<close> = the
    field \<^verbatim>\<open>depth_factor\<close>, each rounded to a double and then to a single;
  \<^item> WebGL carries it out, and every pixel of the sub-strip, that is every pixel
    whose centre lies between \<open>x0\<close> and \<open>x1\<close>, gets the colour of the stereogram
    texture sampled at \<open>(frag_x + delta - strip_size, frag_y)\<close>, where \<open>delta\<close> is
    \<^verbatim>\<open>depth_factor\<close> times the red component of the depth map sampled at
    \<open>((frag_x / depth_strip_size - 1) * strip_size, frag_y)\<close>; no other pixel and
    no texel changes.
\<close>

theorem stereo_shader_formula:
  assumes "num_strips r = Some ns" and "num_sub_strips r = Some nss"
    and "1 \<le> ns" and "1 \<le> nss" and "ns * nss \<le> 2 ^ 53"
    and "strip_size r = Some s" and "\<bar>s\<bar> \<le> 2 ^ 53"
    and "depth_factor r = Some df" and "\<bar>df\<bar> \<le> 2 ^ 64"
    and "render d r = Some calls" and "c \<in> set calls" and "is_stereo_draw c"
  shows "\<exists>num sub x0 x1 ss dss dfac.
           nss \<le> num \<and> num < ns * nss
         \<and> sub = round_double (round_double s / real_of_int nss)
         \<and> x0 = round_single (round_double (real_of_int num * sub))
         \<and> x1 = round_single (round_double (real_of_int (num + 1) * sub))
         \<and> ss = round_single (round_double s)
         \<and> dss = round_single (round_double (1 / round_double (real_of_int ns + 1)))
         \<and> dfac = round_single (round_double df)
         \<and> c = DrawArrays (StereoProgram (Some ss) (Some dss) (Some dfac) d (stereo_texture r))
                 [Some x0, Some 0, Some 0, Some x1, Some 0, Some 0, Some x1, Some 1, Some 0,
                  Some x1, Some 1, Some 0, Some x0, Some 1, Some 0, Some x0, Some 0, Some 0]
                 [Some x0, Some 0, Some x1, Some 0, Some x1, Some 1, Some x1, Some 1,
                  Some x0, Some 1, Some x0, Some 0]
         \<and> (\<exists>st'. gl_step canvas e ext c st = Some st'
               \<and> (\<forall>px. covered canvas x0 x1 px \<longrightarrow>
                     framebuffer st' px =
                       sampler_of e ext st (stereo_texture r)
                         (fst (pixel_centre canvas px)
                            + fst (sampler_of e ext st d
                                ((fst (pixel_centre canvas px) / dss - 1) * ss,
                                 snd (pixel_centre canvas px))) * dfac
                            - ss,
                          snd (pixel_centre canvas px)))
               \<and> (\<forall>px. \<not> covered canvas x0 x1 px \<longrightarrow> framebuffer st' px = framebuffer st px)
               \<and> texels st' = texels st)"
proof -
  define sub where "sub = round_double (round_double s / real_of_int nss)"
  define ss where "ss = round_single (round_double s)"
  define dss where "dss = round_single (round_double (1 / round_double (real_of_int ns + 1)))"
  define dfac where "dfac = round_single (round_double df)"
  let ?sh = "StereoProgram (Some ss) (Some dss) (Some dfac) d (stereo_texture r)"
  have calls: "calls = Clear # render_reference_strip (Some (round_double s)) r
          @ concat (map (\<lambda>num. render_stereo_strip ?sh num (Some sub) r) [nss .. ns * nss - 1])"
    using render_calls [OF assms(1-9), of d] assms(10)
    by (simp add: sub_def ss_def dss_def dfac_def)
  have "c \<noteq> Clear" using assms(12) by auto
  moreover have "c \<notin> set (render_reference_strip (Some (round_double s)) r)"
    using assms(12) reference_strip_no_stereo by blast
  ultimately obtain num where num: "num \<in> set [nss .. ns * nss - 1]"
    and cin: "c \<in> set (render_stereo_strip ?sh num (Some sub) r)"
    using assms(11) unfolding calls by auto
  have c: "c = DrawArrays ?sh (stereo_position num (Some sub)) (stereo_uv num (Some sub))"
    using cin assms(12) by (rule stereo_strip_stereo_draw)
  have n: "nss \<le> num" "num < ns * nss" using num by simp_all
  have subb: "\<bar>sub\<bar> \<le> 2 ^ 53" unfolding sub_def by (rule sub_strip_size(2) [OF assms(7,4)])
  have n0: "0 \<le> num" using n(1) assms(4) by simp
  have n1: "num + 1 \<le> 2 ^ 53" using n(2) assms(5) by simp
  define x0 where "x0 = round_single (round_double (real_of_int num * sub))"
  define x1 where "x1 = round_single (round_double (real_of_int (num + 1) * sub))"
  have c': "c = DrawArrays ?sh
                 [Some x0, Some 0, Some 0, Some x1, Some 0, Some 0, Some x1, Some 1, Some 0,
                  Some x1, Some 1, Some 0, Some x0, Some 1, Some 0, Some x0, Some 0, Some 0]
                 [Some x0, Some 0, Some x1, Some 0, Some x1, Some 1, Some x1, Some 1,
                  Some x0, Some 1, Some x0, Some 0]"
    unfolding c stereo_quad [OF subb n0 n1] x0_def x1_def ..
  have step: "\<exists>st'. gl_step canvas e ext c st = Some st'
               \<and> (\<forall>px. covered canvas x0 x1 px \<longrightarrow>
                     framebuffer st' px =
                       sampler_of e ext st (stereo_texture r)
                         (fst (pixel_centre canvas px)
                            + fst (sampler_of e ext st d
                                ((fst (pixel_centre canvas px) / dss - 1) * ss,
                                 snd (pixel_centre canvas px))) * dfac
                            - ss,
                          snd (pixel_centre canvas px)))
               \<and> (\<forall>px. \<not> covered canvas x0 x1 px \<longrightarrow> framebuffer st' px = framebuffer st px)
               \<and> texels st' = texels st"
    unfolding c' by (rule stereo_draw_step)
  from n sub_def x0_def x1_def ss_def dss_def dfac_def c' step show ?thesis by blast
qed

section \<open>The small renderer\<close>

text \<open>Rounding on numerals, and the calls of one \<^verbatim>\<open>render\<close> of the small
  renderer.\<close>

lemmas fp_eval = round_double_def round_single_def rnd_def expo_def pow2_def round_even_def
  compute_bitlen Let_def

lemma round_double_numeral [simp]:
  "(numeral k :: int) \<le> 2 ^ 53 \<Longrightarrow> round_double (numeral k) = numeral k"
  using round_double_int [of "numeral k"] by simp

lemma round_single_numeral [simp]:
  "(numeral k :: int) \<le> 2 ^ 24 \<Longrightarrow> round_single (numeral k) = numeral k"
  using round_single_int [of "numeral k"] by simp

lemma dbl_numeral [simp]:
  "(numeral k :: int) \<le> 2 ^ 53 \<Longrightarrow> dbl (numeral k) = Some (numeral k)"
  using dbl_int [of "numeral k"] by simp

lemma f32_numeral [simp]:
  "(numeral k :: int) \<le> 2 ^ 24 \<Longrightarrow> f32 (numeral k) = Some (numeral k)"
proof -
  assume k: "(numeral k :: int) \<le> 2 ^ 24"
  then have "\<bar>real_of_int (numeral k)\<bar> \<le> 2 ^ 24"
    by (metis abs_numeral of_int_le_iff of_int_numeral of_int_power of_int_abs)
  then have "f32 (real_of_int (numeral k)) = Some (round_single (real_of_int (numeral k)))"
    by (rule f32_bound(1)) simp
  then show ?thesis using round_single_int [of "numeral k"] k by simp
qed

lemma demo_numbers:
  "round_double (1 / 2) = 1 / 2" "round_single (1 / 2) = 1 / 2"
  "round_double (1 / 4) = 1 / 4" "round_single (1 / 4) = 1 / 4"
  "round_single (round_double (1 / 3)) = 11184811 / 33554432"
  by (simp_all add: fp_eval)

lemma demo_options:
  "dbl (1 / 2) = Some (1 / 2)" "f32 (1 / 2) = Some (1 / 2)"
  "dbl (1 / 4) = Some (1 / 4)" "f32 (1 / 4) = Some (1 / 4)"
  by (simp_all add: dbl_def f32_def demo_numbers pow2_def)

lemma demo_render: "render (Some 11) demo_renderer = Some [Clear,
  DrawArrays (TextureProgram (Some 10))
   [Some 0, Some 0, Some 0, Some (1 / 2), Some 0, Some 0, Some (1 / 2), Some 1, Some 0,
    Some (1 / 2), Some 1, Some 0, Some 0, Some 1, Some 0, Some 0, Some 0, Some 0]
   [Some 0, Some 0, Some 1, Some 0, Some 1, Some 2, Some 1, Some 2,
    Some 0, Some 2, Some 0, Some 0],
  CopyTexSubImage2D (Some 0) (Some 0) (Some 5) (Some 1),
  DrawArrays
   (StereoProgram (Some (1 / 2)) (Some (11184811 / 33554432)) (Some (1 / 4)) (Some 11) (Some 0))
   [Some (1 / 2), Some 0, Some 0, Some 1, Some 0, Some 0, Some 1, Some 1, Some 0,
    Some 1, Some 1, Some 0, Some (1 / 2), Some 1, Some 0, Some (1 / 2), Some 0, Some 0]
   [Some (1 / 2), Some 0, Some 1, Some 0, Some 1, Some 1, Some 1, Some 1,
    Some (1 / 2), Some 1, Some (1 / 2), Some 0],
  CopyTexSubImage2D (Some 0) (Some 4) (Some 4) (Some 1)]"
proof -
  have r: "num_strips demo_renderer = Some 2" "num_sub_strips demo_renderer = Some 1"
    "(1::int) \<le> 2" "(1::int) \<le> 1" "(2::int) * 1 \<le> 2 ^ 53"
    "strip_size demo_renderer = Some (1 / 2)" "\<bar>1 / 2 :: real\<bar> \<le> 2 ^ 53"
    "depth_factor demo_renderer = Some (1 / 4)" "\<bar>1 / 4 :: real\<bar> \<le> 2 ^ 64"
    by (simp_all add: demo_renderer_def)
  show ?thesis
    unfolding render_calls [OF r]
    by (simp add: demo_numbers demo_options upto_rec1
        render_reference_strip_def render_stereo_strip_def copy_strip_to_stereo_texture_def
        reference_position_eq reference_uv_eq stereo_position_eq stereo_uv_eq
        BG_NOISE_def BG_TILE_def dbl_of_def f32_of_def js_add_def js_mul_def js_div_def
        num_of_def num_floor_def int_sub_def js_less_def demo_renderer_def)
qed


text \<open>
  The claim on the small renderer: its one stereo draw has the rectangle from
  \<open>1/2\<close> to \<open>1\<close> and the uniforms \<open>1/2\<close>, the single nearest to \<open>1/3\<close> and
  \<open>1/4\<close>.  With a white depth map \<open>delta\<close> is \<open>1/4\<close>, so the pixel of column \<open>5\<close>,
  whose centre is at \<open>x = 11/16\<close>, gets the colour of the stereogram texture at
  \<open>x = 11/16 + 1/4 - 1/2 = 7/16\<close>, the centre of texel \<open>3\<close>, here the only red
  one.  Column \<open>3\<close> is not in the strip and stays as it was.
\<close>

theorem stereo_shader_formula_witness:
  "\<exists>st'. gl_step (8, 1) demo_env white_textures
      (DrawArrays
         (StereoProgram (Some (1 / 2)) (Some (11184811 / 33554432)) (Some (1 / 4))
            (Some 11) (Some 0))
         [Some (1 / 2), Some 0, Some 0, Some 1, Some 0, Some 0, Some 1, Some 1, Some 0,
          Some 1, Some 1, Some 0, Some (1 / 2), Some 1, Some 0, Some (1 / 2), Some 0, Some 0]
         [Some (1 / 2), Some 0, Some 1, Some 0, Some 1, Some 1, Some 1, Some 1,
          Some (1 / 2), Some 1, Some (1 / 2), Some 0])
      (blank_state\<lparr>texels := (\<lambda>t px. if px = (3, 0) then (1, 0, 0, 1) else black)\<rparr>)
     = Some st'
   \<and> framebuffer st' (5, 0) = (1, 0, 0, 1)
   \<and> framebuffer st' (3, 0) = black"
proof -
  let ?c = "DrawArrays
         (StereoProgram (Some (1 / 2)) (Some (11184811 / 33554432)) (Some (1 / 4))
            (Some 11) (Some 0))
         [Some (1 / 2), Some 0, Some 0, Some 1, Some 0, Some 0, Some 1, Some 1, Some 0,
          Some 1, Some 1, Some 0, Some (1 / 2), Some 1, Some 0, Some (1 / 2), Some 0, Some 0]
         [Some (1 / 2), Some 0, Some 1, Some 0, Some 1, Some 1, Some 1, Some 1,
          Some (1 / 2), Some 1, Some (1 / 2), Some 0]"
  let ?st = "blank_state\<lparr>texels := (\<lambda>t px. if px = (3, 0) then (1, 0, 0, 1) else black)\<rparr>"
  have r: "num_strips demo_renderer = Some 2" "num_sub_strips demo_renderer = Some 1"
    "(1::int) \<le> 2" "(1::int) \<le> 1" "(2::int) * 1 \<le> 2 ^ 53"
    "strip_size demo_renderer = Some (1 / 2)" "\<bar>1 / 2 :: real\<bar> \<le> 2 ^ 53"
    "depth_factor demo_renderer = Some (1 / 4)" "\<bar>1 / 4 :: real\<bar> \<le> 2 ^ 64"
    by (simp_all add: demo_renderer_def)
  have m: "?c \<in> set [Clear,
      DrawArrays (TextureProgram (Some 10))
       [Some 0, Some 0, Some 0, Some (1 / 2), Some 0, Some 0, Some (1 / 2), Some 1, Some 0,
        Some (1 / 2), Some 1, Some 0, Some 0, Some 1, Some 0, Some 0, Some 0, Some 0]
       [Some 0, Some 0, Some 1, Some 0, Some 1, Some 2, Some 1, Some 2,
        Some 0, Some 2, Some 0, Some 0],
      CopyTexSubImage2D (Some 0) (Some 0) (Some 5) (Some 1),
      ?c,
      CopyTexSubImage2D (Some 0) (Some 4) (Some 4) (Some 1)]"
    by simp
  have s: "is_stereo_draw ?c" by simp
  from stereo_shader_formula [OF r demo_render m s, of "(8, 1)" demo_env white_textures ?st]
  obtain num sub x0 x1 ss dss dfac st' where
    n: "1 \<le> num" "num < 2 * 1"
    and v: "sub = round_double (round_double (1 / 2) / real_of_int 1)"
      "x0 = round_single (round_double (real_of_int num * sub))"
      "x1 = round_single (round_double (real_of_int (num + 1) * sub))"
      "ss = round_single (round_double (1 / 2))"
      "dss = round_single (round_double (1 / round_double (real_of_int 2 + 1)))"
      "dfac = round_single (round_double (1 / 4))"
    and st: "gl_step (8, 1) demo_env white_textures ?c ?st = Some st'"
    and cov: "\<forall>px. covered (8, 1) x0 x1 px \<longrightarrow>
                     framebuffer st' px =
                       sampler_of demo_env white_textures ?st (stereo_texture demo_renderer)
                         (fst (pixel_centre (8, 1) px)
                            + fst (sampler_of demo_env white_textures ?st (Some 11)
                                ((fst (pixel_centre (8, 1) px) / dss - 1) * ss,
                                 snd (pixel_centre (8, 1) px))) * dfac
                            - ss,
                          snd (pixel_centre (8, 1) px))"
    and unc: "\<forall>px. \<not> covered (8, 1) x0 x1 px \<longrightarrow> framebuffer st' px = framebuffer ?st px"
    by blast
  have num: "num = 1" using n by simp
  have sub: "sub = 1 / 2" using v(1) by (simp add: demo_numbers)
  have vals: "x0 = 1 / 2" "x1 = 1" "ss = 1 / 2" "dfac = 1 / 4"
    unfolding v(2-6) num sub by (simp_all add: demo_numbers)
  have c5: "covered (8, 1) x0 x1 (5, 0)"
    by (simp add: covered_def pixel_centre_def vals)
  have c3: "\<not> covered (8, 1) x0 x1 (3, 0)"
    by (simp add: covered_def pixel_centre_def vals)
  have "framebuffer st' (5, 0) = (1, 0, 0, 1)"
    using cov [rule_format, OF c5]
    by (simp add: vals pixel_centre_def sampler_of_def demo_env_def demo_renderer_def
        white_textures_def sample_linear_def clamp_coord_def texel_index_def mix_def
        blank_state_def black_def Let_def)
  moreover have "framebuffer st' (3, 0) = black"
    using unc [rule_format, OF c3] by (simp add: blank_state_def)
  ultimately show ?thesis using st by blast
qed

end
